theory Spec2Isabelle
  imports Main "HOL-Library.List_Lexorder"
begin

section \<open>Entity resolution of company names and IBANs: the embedding of pipeline.py\<close>

text \<open>
  A Python \<open>str\<close> is a sequence of Unicode code points: a code point is a natural
  number and a \<open>str\<close> is a list of them; \<open>lit\<close> writes a string literal of the source.

  The character data of the Python interpreter (which code points are whitespace, which
  are word characters, how a code point is lower-cased) are not part of the repository.
  On the code points below 128 they are the same in every Python 3 and are written out
  in the definitions. On the other code points they are the fields of a record
  \<open>unicode_db\<close> that every string function takes as its first argument, so every
  theorem holds for every such database.

  The two library functions the program imports, \<open>cleanco.basename\<close> and
  \<open>fuzzywuzzy.fuzz.token_set_ratio\<close>, are parameters (\<open>bn\<close>, \<open>tsr\<close>) of the functions
  that call them, and so is the constant \<open>INVALID\<close> of the configuration module.
\<close>

subsection \<open>Python strings\<close>

type_synonym str = "nat list"

definition lit :: "string \<Rightarrow> str" where
  "lit s = map of_char s"

text \<open>
  The space character U+0020, and the three code points of the Greek letter sigma that
  \<open>str.lower\<close> treats by position: capital U+03A3, small U+03C3, final small U+03C2.
\<close>

abbreviation space :: nat where
  "space \<equiv> 0x20"

abbreviation capital_sigma :: nat where
  "capital_sigma \<equiv> 0x3A3"

abbreviation small_sigma :: nat where
  "small_sigma \<equiv> 0x3C3"

abbreviation final_small_sigma :: nat where
  "final_small_sigma \<equiv> 0x3C2"

text \<open>
  The character data of the code points from 128 on:
  \<^item> \<open>isspace_data\<close>: the whitespace code points, the same set for \<open>str.isspace\<close>,
    \<open>str.strip\<close>, \<open>str.split\<close> and the regular expression class \<open>\s\<close>;
  \<^item> \<open>isword_data\<close>: the code points of the regular expression class \<open>\w\<close>
    (alphanumeric, or the underscore);
  \<^item> \<open>lower_data\<close>: the full lower-case mapping of a code point, one to three code
    points;
  \<^item> \<open>title_data\<close>: the mapping that \<open>str.capitalize\<close> applies to the first code
    point (the full title-case mapping; the upper-case mapping before Python 3.8);
  \<^item> \<open>final_sigma\<close>: whether the position of a capital sigma in a string is in the
    Final_Sigma context (a cased code point before it, none after it, case-ignorable
    code points skipped).
\<close>

record unicode_db =
  isspace_data :: "nat \<Rightarrow> bool"
  isword_data :: "nat \<Rightarrow> bool"
  lower_data :: "nat \<Rightarrow> str"
  title_data :: "nat \<Rightarrow> str"
  final_sigma :: "str \<Rightarrow> nat \<Rightarrow> bool"

text \<open>
  The character data of all code points. Below 128: whitespace is 9 to 13 and 28 to 32;
  the word characters are the digits, the letters and the underscore; \<open>A-Z\<close> and
  \<open>a-z\<close> are exchanged by the case mappings.
\<close>

definition isspace :: "unicode_db \<Rightarrow> nat \<Rightarrow> bool" where
  "isspace db c =
     (if c < 128 then (9 \<le> c \<and> c \<le> 13) \<or> (28 \<le> c \<and> c \<le> 32)
      else isspace_data db c)"

definition isword :: "unicode_db \<Rightarrow> nat \<Rightarrow> bool" where
  "isword db c =
     (if c < 128
      then (48 \<le> c \<and> c \<le> 57) \<or> (65 \<le> c \<and> c \<le> 90) \<or> c = 95
           \<or> (97 \<le> c \<and> c \<le> 122)
      else isword_data db c)"

definition lower_full :: "unicode_db \<Rightarrow> nat \<Rightarrow> str" where
  "lower_full db c =
     (if c < 128 then [if 65 \<le> c \<and> c \<le> 90 then c + 32 else c]
      else lower_data db c)"

definition title_full :: "unicode_db \<Rightarrow> nat \<Rightarrow> str" where
  "title_full db c =
     (if c < 128 then [if 97 \<le> c \<and> c \<le> 122 then c - 32 else c]
      else title_data db c)"

text \<open>
  \<open>text.lower()\<close>: every code point is replaced by its full lower-case mapping,
  except the capital sigma, which becomes the final or the plain small sigma.
\<close>

definition lower_at :: "unicode_db \<Rightarrow> str \<Rightarrow> nat \<Rightarrow> str" where
  "lower_at db s i =
     (if s ! i = capital_sigma
      then [if final_sigma db s i then final_small_sigma else small_sigma]
      else lower_full db (s ! i))"

definition lower :: "unicode_db \<Rightarrow> str \<Rightarrow> str" where
  "lower db s = concat (map (lower_at db s) [0..<length s])"

text \<open>
  \<open>s.capitalize()\<close>: the first code point is title-cased and every other code point is
  lower-cased as \<open>lower\<close> does it.
\<close>

definition capitalize :: "unicode_db \<Rightarrow> str \<Rightarrow> str" where
  "capitalize db s =
     (if s = [] then []
      else title_full db (s ! 0) @ concat (map (lower_at db s) [1..<length s]))"

text \<open>\<open>text.strip()\<close>: whitespace is removed at both ends.\<close>

definition strip :: "unicode_db \<Rightarrow> str \<Rightarrow> str" where
  "strip db s = rev (dropWhile (isspace db) (rev (dropWhile (isspace db) s)))"

text \<open>
  \<open>re.sub(' +', rep, s)\<close>: every maximal run of the space character U+0020 is
  replaced by \<open>rep\<close>. The replacement is emitted at the last space of a run.
\<close>

fun re_sub_spaces :: "str \<Rightarrow> str \<Rightarrow> str" where
  "re_sub_spaces rep [] = []"
| "re_sub_spaces rep [c] = (if c = space then rep else [c])"
| "re_sub_spaces rep (c # d # cs) =
     (if c = space then
        (if d = space then re_sub_spaces rep (d # cs)
         else rep @ re_sub_spaces rep (d # cs))
      else c # re_sub_spaces rep (d # cs))"

text \<open>\<open>re.sub(r'[^\w\s]', '', text)\<close>: only word and whitespace characters are kept.\<close>

definition re_sub_not_word_space :: "unicode_db \<Rightarrow> str \<Rightarrow> str" where
  "re_sub_not_word_space db s = filter (\<lambda>c. isword db c \<or> isspace db c) s"

text \<open>
  \<open>s.split()\<close>: the maximal runs of characters that are not whitespace, in order;
  there is no empty token.
\<close>

function split :: "unicode_db \<Rightarrow> str \<Rightarrow> str list" where
  "split db s =
     (case dropWhile (isspace db) s of
        [] \<Rightarrow> []
      | c # cs \<Rightarrow> (c # takeWhile (\<lambda>x. \<not> isspace db x) cs)
                  # split db (dropWhile (\<lambda>x. \<not> isspace db x) cs))"
  by pat_completeness auto
termination
proof (relation "measure (\<lambda>(db, s). length s)")
  show "wf (measure (\<lambda>(db, s). length s))" by simp
next
  fix db :: unicode_db and s :: str and c cs
  assume h: "dropWhile (isspace db) s = c # cs"
  have "length (dropWhile (\<lambda>x. \<not> isspace db x) cs) \<le> length cs"
    by (rule length_dropWhile_le)
  also have "length cs < length (dropWhile (isspace db) s)"
    using h by simp
  also have "length (dropWhile (isspace db) s) \<le> length s"
    by (rule length_dropWhile_le)
  finally show "((db, dropWhile (\<lambda>x. \<not> isspace db x) cs), (db, s))
                  \<in> measure (\<lambda>(db, s). length s)"
    by simp
qed

declare split.simps [simp del]

text \<open>\<open>sep.join(tokens)\<close>\<close>

fun join :: "str \<Rightarrow> str list \<Rightarrow> str" where
  "join sep [] = []"
| "join sep [t] = t"
| "join sep (t # u # ts) = t @ sep @ join sep (u # ts)"

text \<open>\<open>s[:-2]\<close>: a string shorter than two characters gives the empty string.\<close>

definition drop_last_two :: "str \<Rightarrow> str" where
  "drop_last_two s = (if length s < 2 then [] else take (length s - 2) s)"

subsection \<open>Normalizer and IdentifierTruncator\<close>

definition normalize_text :: "unicode_db \<Rightarrow> str \<Rightarrow> str" where
  "normalize_text db text =
     re_sub_spaces [space] (strip db (re_sub_not_word_space db (lower db text)))"

definition remove_business_terms :: "unicode_db \<Rightarrow> (str \<Rightarrow> str) \<Rightarrow> str \<Rightarrow> str" where
  "remove_business_terms db bn text = re_sub_spaces [space] (strip db (bn text))"

definition remove_last_digits_iban :: "unicode_db \<Rightarrow> str \<Rightarrow> str" where
  "remove_last_digits_iban db iban = strip db (drop_last_two (re_sub_spaces [] iban))"

subsection \<open>Tables\<close>

text \<open>
  The exceptions of Python that the program can raise. The program defines no failure
  result of its own: every failure is an exception raised inside a library call.
  \<open>AttributeError\<close>: a string method called on a missing cell (a float NaN);
  \<open>TypeError\<close>: \<open>re.sub\<close> called on a missing cell;
  \<open>ValueError\<close>: numpy's \<open>argmax\<close> called on an empty array.
\<close>

datatype error = AttributeError | TypeError | ValueError

text \<open>
  A row of the table read from the CSV file: a cell of the name column and a cell of
  the IBAN column, \<open>None\<close> when the cell is missing (NaN). Each stage that adds columns
  to the data frame extends the row.
\<close>

record raw_row =
  name :: "str option"
  iban :: "str option"

record norm_row = raw_row +
  norm_name :: str

record terms_row = norm_row +
  not_business_terms_name :: str

record keyed_row = terms_row +
  norm_iban :: str
  norm_name_iban :: str
  not_business_terms_name_norm_iban :: str

record matched_row = keyed_row +
  company :: str

text \<open>
  A row of the grouped output: the group key (the index of the resulting data frame)
  and, for the name and the IBAN column, \<open>list(set(x))\<close> of the group's cells, a list
  in no particular order, modelled as the set.
\<close>

record entity =
  entity_name :: str
  observed_names :: "str option set"
  observed_identifiers :: "str option set"

text \<open>
  \<open>Series.apply(f)\<close>: \<open>f\<close> is called on the rows in order, and the first exception
  ends the call.
\<close>

fun apply_rows :: "('a \<Rightarrow> error + 'b) \<Rightarrow> 'a list \<Rightarrow> error + 'b list" where
  "apply_rows f [] = Inr []"
| "apply_rows f (r # rs) =
     (case f r of
        Inl e \<Rightarrow> Inl e
      | Inr v \<Rightarrow> (case apply_rows f rs of Inl e \<Rightarrow> Inl e | Inr vs \<Rightarrow> Inr (v # vs)))"

text \<open>
  \<open>drop_duplicates(subset=...)\<close> and \<open>Series.unique()\<close>: a row whose key has been seen
  is dropped, so the first occurrence of each key stays, in the order of the input.
\<close>

fun drop_dups_by :: "('a \<Rightarrow> 'k) \<Rightarrow> 'k list \<Rightarrow> 'a list \<Rightarrow> 'a list" where
  "drop_dups_by key seen [] = []"
| "drop_dups_by key seen (x # xs) =
     (if key x \<in> set seen then drop_dups_by key seen xs
      else x # drop_dups_by key (key x # seen) xs)"

definition unique :: "'a list \<Rightarrow> 'a list" where
  "unique xs = drop_dups_by (\<lambda>x. x) [] xs"

text \<open>
  \<open>numpy.argmax\<close>: the index of the first maximum; an empty array has none
  (numpy raises \<open>ValueError\<close>).
\<close>

fun argmax_from :: "nat \<Rightarrow> int \<Rightarrow> nat \<Rightarrow> int list \<Rightarrow> nat" where
  "argmax_from best bv i [] = best"
| "argmax_from best bv i (v # vs) =
     (if bv < v then argmax_from i v (Suc i) vs else argmax_from best bv (Suc i) vs)"

fun argmax :: "int list \<Rightarrow> nat option" where
  "argmax [] = None"
| "argmax (v # vs) = Some (argmax_from 0 v 1 vs)"

subsection \<open>DuplicateFilter: the stage \<open>process_duplicate_removal\<close>\<close>

definition remove_anomaly_data :: "str \<Rightarrow> raw_row list \<Rightarrow> raw_row list" where
  "remove_anomaly_data INVALID dataframe =
     filter (\<lambda>r. iban r \<noteq> Some INVALID)
       (filter (\<lambda>r. name r \<noteq> None \<and> iban r \<noteq> None) dataframe)"

definition normalize_name_company :: "unicode_db \<Rightarrow> raw_row list \<Rightarrow> error + norm_row list" where
  "normalize_name_company db dataframe =
     apply_rows (\<lambda>r. case name r of
                       None \<Rightarrow> Inl AttributeError
                     | Some x \<Rightarrow> Inr \<lparr>name = name r, iban = iban r,
                                      norm_name = normalize_text db x\<rparr>) dataframe"

definition remove_duplicates :: "norm_row list \<Rightarrow> norm_row list" where
  "remove_duplicates dataframe = drop_dups_by (\<lambda>r. (norm_name r, iban r)) [] dataframe"

text \<open>The table is the one \<open>read_data\<close> has read from the file.\<close>

definition process_duplicate_removal ::
  "unicode_db \<Rightarrow> str \<Rightarrow> raw_row list \<Rightarrow> error + norm_row list" where
  "process_duplicate_removal db INVALID data =
     (case normalize_name_company db (remove_anomaly_data INVALID data) of
        Inl e \<Rightarrow> Inl e
      | Inr d \<Rightarrow> Inr (remove_duplicates d))"

subsection \<open>CanonicalKeyBuilder, EntityMatcher and Aggregator: \<open>process_entity_resolution\<close>\<close>

definition remove_terms_name_company ::
  "unicode_db \<Rightarrow> (str \<Rightarrow> str) \<Rightarrow> norm_row list \<Rightarrow> terms_row list" where
  "remove_terms_name_company db bn dataframe =
     map (\<lambda>r. \<lparr>name = name r, iban = iban r, norm_name = norm_name r,
               not_business_terms_name = remove_business_terms db bn (norm_name r)\<rparr>)
         dataframe"

definition generate_name_iban_normalized ::
  "unicode_db \<Rightarrow> terms_row list \<Rightarrow> error + keyed_row list" where
  "generate_name_iban_normalized db dataframe =
     apply_rows (\<lambda>r. case iban r of
                       None \<Rightarrow> Inl TypeError
                     | Some x \<Rightarrow>
                         Inr \<lparr>name = name r, iban = iban r, norm_name = norm_name r,
                              not_business_terms_name = not_business_terms_name r,
                              norm_iban = remove_last_digits_iban db x,
                              norm_name_iban = norm_name r @ [space] @ x,
                              not_business_terms_name_norm_iban =
                                not_business_terms_name r @ [space]
                                  @ remove_last_digits_iban db x\<rparr>)
       dataframe"

definition get_uniques_name_plus_iban :: "keyed_row list \<Rightarrow> str list" where
  "get_uniques_name_plus_iban dataframe =
     unique (map not_business_terms_name_norm_iban dataframe)"

definition get_company_match ::
  "unicode_db \<Rightarrow> (str \<Rightarrow> str \<Rightarrow> int) \<Rightarrow> str \<Rightarrow> str list \<Rightarrow> error + str" where
  "get_company_match db tsr actual_company unique_companies =
     (let match_values = map (\<lambda>unique_company. tsr unique_company actual_company)
                             unique_companies
      in case argmax match_values of
           None \<Rightarrow> Inl ValueError
         | Some i \<Rightarrow>
             Inr (capitalize db (join [space] (butlast (split db (unique_companies ! i))))))"

definition generate_company_match ::
  "unicode_db \<Rightarrow> (str \<Rightarrow> str \<Rightarrow> int) \<Rightarrow> keyed_row list \<Rightarrow> str list
     \<Rightarrow> error + matched_row list" where
  "generate_company_match db tsr dataframe unique_company_name_iban =
     apply_rows (\<lambda>r. case get_company_match db tsr (norm_name_iban r) unique_company_name_iban of
                       Inl e \<Rightarrow> Inl e
                     | Inr c \<Rightarrow>
                         Inr \<lparr>name = name r, iban = iban r, norm_name = norm_name r,
                              not_business_terms_name = not_business_terms_name r,
                              norm_iban = norm_iban r,
                              norm_name_iban = norm_name_iban r,
                              not_business_terms_name_norm_iban =
                                not_business_terms_name_norm_iban r,
                              company = c\<rparr>)
       dataframe"

text \<open>
  \<open>dataframe.groupby(COMPANY)\<close>: one group for each distinct key, the keys in sorted
  order (strings are compared code point by code point), each group holding the rows
  of its key.
\<close>

definition groupby_company :: "matched_row list \<Rightarrow> (str \<times> matched_row list) list" where
  "groupby_company dataframe =
     map (\<lambda>c. (c, filter (\<lambda>r. company r = c) dataframe))
         (sort (remdups (map company dataframe)))"

definition generate_group_by_company :: "matched_row list \<Rightarrow> entity list" where
  "generate_group_by_company dataframe =
     map (\<lambda>(c, x). \<lparr>entity_name = c,
                     observed_names = set (map name x),
                     observed_identifiers = set (map iban x)\<rparr>)
         (groupby_company dataframe)"

text \<open>
  The first four statements of \<open>process_entity_resolution\<close>: the data frame with the
  matched company of every row, before it is grouped.
\<close>

definition match_rows ::
  "unicode_db \<Rightarrow> (str \<Rightarrow> str) \<Rightarrow> (str \<Rightarrow> str \<Rightarrow> int) \<Rightarrow> norm_row list
     \<Rightarrow> error + matched_row list" where
  "match_rows db bn tsr dataframe =
     (case generate_name_iban_normalized db (remove_terms_name_company db bn dataframe) of
        Inl e \<Rightarrow> Inl e
      | Inr d \<Rightarrow> generate_company_match db tsr d (get_uniques_name_plus_iban d))"

definition process_entity_resolution ::
  "unicode_db \<Rightarrow> (str \<Rightarrow> str) \<Rightarrow> (str \<Rightarrow> str \<Rightarrow> int) \<Rightarrow> norm_row list
     \<Rightarrow> error + entity list" where
  "process_entity_resolution db bn tsr dataframe =
     (case match_rows db bn tsr dataframe of
        Inl e \<Rightarrow> Inl e
      | Inr d \<Rightarrow> Inr (generate_group_by_company d))"

text \<open>The two stages as the main block runs them, without the files.\<close>

definition run_pipeline ::
  "unicode_db \<Rightarrow> str \<Rightarrow> (str \<Rightarrow> str) \<Rightarrow> (str \<Rightarrow> str \<Rightarrow> int) \<Rightarrow> raw_row list
     \<Rightarrow> error + entity list" where
  "run_pipeline db INVALID bn tsr data =
     (case process_duplicate_removal db INVALID data of
        Inl e \<Rightarrow> Inl e
      | Inr d \<Rightarrow> process_entity_resolution db bn tsr d)"

subsection \<open>Two databases for the examples\<close>

text \<open>
  The database that leaves every code point from 128 on without class and case. It
  evaluates the examples whose strings are ASCII.
\<close>

definition ascii_db :: unicode_db where
  "ascii_db =
     \<lparr>isspace_data = (\<lambda>c. False),
      isword_data = (\<lambda>c. False),
      lower_data = (\<lambda>c. [c]),
      title_data = (\<lambda>c. [c]),
      final_sigma = (\<lambda>s i. False)\<rparr>"

text \<open>
  A database with some entries of the Unicode data: the whitespace U+0085 and U+00A0;
  the letters U+00DC and U+00FC (\<open>U\<close> with diaeresis, capital and small), U+00DF (sharp
  s), U+0130 (capital \<open>I\<close> with dot above, lower-cased to \<open>i\<close> and the combining dot
  U+0307, which is no word character) and the three sigmas. A capital sigma is final
  when a letter precedes it and no letter follows it.
\<close>

definition sample_letter :: "nat \<Rightarrow> bool" where
  "sample_letter c =
     ((65 \<le> c \<and> c \<le> 90) \<or> (97 \<le> c \<and> c \<le> 122)
      \<or> c = 0xDC \<or> c = 0xDF \<or> c = 0xFC \<or> c = 0x130
      \<or> c = capital_sigma \<or> c = small_sigma \<or> c = final_small_sigma)"

definition sample_db :: unicode_db where
  "sample_db =
     \<lparr>isspace_data = (\<lambda>c. c = 0x85 \<or> c = 0xA0),
      isword_data = sample_letter,
      lower_data = (\<lambda>c. if c = 0xDC then [0xFC]
                        else if c = 0x130 then [0x69, 0x307]
                        else if c = capital_sigma then [small_sigma]
                        else [c]),
      title_data = (\<lambda>c. if c = 0xFC then [0xDC]
                        else if c = 0xDF then [0x53, 0x73]
                        else if c = small_sigma \<or> c = final_small_sigma then [capital_sigma]
                        else [c]),
      final_sigma = (\<lambda>s i. 0 < i \<and> sample_letter (s ! (i - 1))
                           \<and> (Suc i = length s \<or> \<not> sample_letter (s ! Suc i)))\<rparr>"

text \<open>A string of code points below 128.\<close>

definition ascii :: "str \<Rightarrow> bool" where
  "ascii s = (\<forall>c\<in>set s. c < 128)"

subsection \<open>Notions used to state the properties\<close>

text \<open>
  The lower-case mapping is stable: every code point that \<open>lower\<close> can yield (a code
  point of the lower-case mapping of a code point other than the capital sigma, or one
  of the two small sigmas) is not the capital sigma and is its own lower-case mapping.
  The Unicode database of Python has this property.
\<close>

definition lower_stable :: "unicode_db \<Rightarrow> bool" where
  "lower_stable db =
     ((\<forall>c. c \<noteq> capital_sigma \<longrightarrow>
           (\<forall>d\<in>set (lower_full db c). d \<noteq> capital_sigma \<and> lower_full db d = [d]))
      \<and> lower_full db small_sigma = [small_sigma]
      \<and> lower_full db final_small_sigma = [final_small_sigma])"

text \<open>A string without leading and trailing whitespace.\<close>

definition stripped :: "unicode_db \<Rightarrow> str \<Rightarrow> bool" where
  "stripped db s = (s = [] \<or> (\<not> isspace db (hd s) \<and> \<not> isspace db (last s)))"

text \<open>A string in which no space character follows a space character.\<close>

fun no_double_space :: "str \<Rightarrow> bool" where
  "no_double_space (c # d # cs) =
     (\<not> (c = space \<and> d = space) \<and> no_double_space (d # cs))"
| "no_double_space cs = True"

text \<open>
  The capitalisation in the words of the specification, "capitalize the first letter
  only": the first character is title-cased and the others are left as they are.
\<close>

definition capitalize_first_letter_only :: "unicode_db \<Rightarrow> str \<Rightarrow> str" where
  "capitalize_first_letter_only db s =
     (case s of [] \<Rightarrow> [] | c # cs \<Rightarrow> title_full db c @ cs)"

text \<open>
  A row that \<open>remove_anomaly_data\<close> keeps: no cell is missing and the IBAN is not the
  invalid value.
\<close>

definition valid_row :: "str \<Rightarrow> 'a raw_row_scheme \<Rightarrow> bool" where
  "valid_row INVALID r = (name r \<noteq> None \<and> iban r \<noteq> None \<and> iban r \<noteq> Some INVALID)"

text \<open>The pair (normalized name, raw identifier) of an input row.\<close>

definition dedup_key :: "unicode_db \<Rightarrow> raw_row \<Rightarrow> str option \<times> str option" where
  "dedup_key db r = (map_option (normalize_text db) (name r), iban r)"

text \<open>
  The input row at index \<open>i\<close> is kept by the filter and its pair does not occur among
  the rows before it.
\<close>

definition first_seen :: "unicode_db \<Rightarrow> str \<Rightarrow> raw_row list \<Rightarrow> nat \<Rightarrow> bool" where
  "first_seen db INVALID data i =
     (valid_row INVALID (data ! i)
      \<and> dedup_key db (data ! i) \<notin> set (map (dedup_key db) (take i data)))"

text \<open>An input row with the column of the normalized name added.\<close>

definition normalized_row :: "unicode_db \<Rightarrow> raw_row \<Rightarrow> norm_row" where
  "normalized_row db r =
     \<lparr>name = name r, iban = iban r,
      norm_name = (case name r of None \<Rightarrow> [] | Some x \<Rightarrow> normalize_text db x)\<rparr>"

subsection \<open>A stand-in for the library function of the business terms\<close>

text \<open>
  Modelled from the spec: the function \<open>basename\<close> of the library cleanco is not part
  of the repository. The specification describes it as removing the known
  legal-entity-form tokens of a fixed reference lexicon from the text. This function
  instantiates the parameter \<open>bn\<close> in the examples only; the theorems hold for every
  \<open>bn\<close>.
\<close>

definition basename_lexicon :: "unicode_db \<Rightarrow> str list \<Rightarrow> str \<Rightarrow> str" where
  "basename_lexicon db lexicon text =
     join [space] (filter (\<lambda>t. t \<notin> set lexicon) (split db text))"

text \<open>The lexicon of the examples: the terms \<open>corp\<close> and \<open>gmbh\<close>.\<close>

definition bn_example :: "str \<Rightarrow> str" where
  "bn_example = basename_lexicon ascii_db [lit ''corp'', lit ''gmbh'']"

subsection \<open>Example tables\<close>

text \<open>
  An input with a missing name, a repeated pair (the names \<open>Acme Corp\<close> and
  \<open>ACME, corp\<close> have the same normal form) and an invalid IBAN.
\<close>

definition dedup_example :: "raw_row list" where
  "dedup_example =
     [\<lparr>name = Some (lit ''Acme Corp''), iban = Some (lit ''DE001'')\<rparr>,
      \<lparr>name = None, iban = Some (lit ''DE009'')\<rparr>,
      \<lparr>name = Some (lit ''ACME, corp''), iban = Some (lit ''DE001'')\<rparr>,
      \<lparr>name = Some (lit ''acme''), iban = Some (lit ''XX'')\<rparr>,
      \<lparr>name = Some (lit ''acme''), iban = Some (lit ''DE003'')\<rparr>]"

text \<open>
  Matched rows of three companies; the third row has an empty name after the business
  terms are removed, and the empty string as its company.
\<close>

definition agg_example :: "matched_row list" where
  "agg_example =
     [\<lparr>name = Some (lit ''Beta Ltd''), iban = Some (lit ''FR761''),
       norm_name = lit ''beta ltd'', not_business_terms_name = lit ''beta'',
       norm_iban = lit ''FR7'', norm_name_iban = lit ''beta ltd FR761'',
       not_business_terms_name_norm_iban = lit ''beta FR7'', company = lit ''Beta''\<rparr>,
      \<lparr>name = Some (lit ''Acme Corp''), iban = Some (lit ''DE001''),
       norm_name = lit ''acme corp'', not_business_terms_name = lit ''acme'',
       norm_iban = lit ''DE0'', norm_name_iban = lit ''acme corp DE001'',
       not_business_terms_name_norm_iban = lit ''acme DE0'', company = lit ''Acme''\<rparr>,
      \<lparr>name = Some (lit ''gmbh''), iban = Some (lit ''DE002''),
       norm_name = lit ''gmbh'', not_business_terms_name = [],
       norm_iban = lit ''DE0'', norm_name_iban = lit ''gmbh DE002'',
       not_business_terms_name_norm_iban = lit '' DE0'', company = []\<rparr>,
      \<lparr>name = Some (lit ''acme''), iban = Some (lit ''DE003''),
       norm_name = lit ''acme'', not_business_terms_name = lit ''acme'',
       norm_iban = lit ''DE0'', norm_name_iban = lit ''acme DE003'',
       not_business_terms_name_norm_iban = lit ''acme DE0'', company = lit ''Acme''\<rparr>]"

text \<open>
  The scenario of the three Acme rows: the input rows, the rows after the removal of
  duplicates, and the expected entity.
\<close>

definition acme_rows :: "raw_row list" where
  "acme_rows =
     [\<lparr>name = Some (lit ''Acme Corp''), iban = Some (lit ''DE001'')\<rparr>,
      \<lparr>name = Some (lit ''ACME GMBH''), iban = Some (lit ''DE002'')\<rparr>,
      \<lparr>name = Some (lit ''acme''), iban = Some (lit ''DE003'')\<rparr>]"

definition acme_dedup :: "norm_row list" where
  "acme_dedup =
     [\<lparr>name = Some (lit ''Acme Corp''), iban = Some (lit ''DE001''),
       norm_name = lit ''acme corp''\<rparr>,
      \<lparr>name = Some (lit ''ACME GMBH''), iban = Some (lit ''DE002''),
       norm_name = lit ''acme gmbh''\<rparr>,
      \<lparr>name = Some (lit ''acme''), iban = Some (lit ''DE003''),
       norm_name = lit ''acme''\<rparr>]"

definition acme_entity :: entity where
  "acme_entity =
     \<lparr>entity_name = lit ''Acme'',
      observed_names = {Some (lit ''Acme Corp''), Some (lit ''ACME GMBH''), Some (lit ''acme'')},
      observed_identifiers = {Some (lit ''DE001''), Some (lit ''DE002''), Some (lit ''DE003'')}\<rparr>"

text \<open>
  A row whose name is a business term only, so that nothing of the name is left: the
  input row, the row after the removal of duplicates, and the entity of the empty name.
\<close>

definition gmbh_rows :: "raw_row list" where
  "gmbh_rows = [\<lparr>name = Some (lit ''GmbH''), iban = Some (lit ''DE002'')\<rparr>]"

definition gmbh_dedup :: "norm_row list" where
  "gmbh_dedup =
     [\<lparr>name = Some (lit ''GmbH''), iban = Some (lit ''DE002''), norm_name = lit ''gmbh''\<rparr>]"

definition gmbh_entity :: entity where
  "gmbh_entity =
     \<lparr>entity_name = [], observed_names = {Some (lit ''GmbH'')},
      observed_identifiers = {Some (lit ''DE002'')}\<rparr>"

text \<open>The same name with an identifier that holds a tab character: \<open>DE<tab>00123\<close>.\<close>

definition tab_rows :: "raw_row list" where
  "tab_rows = [\<lparr>name = Some (lit ''GmbH''), iban = Some (lit ''DE'' @ [9] @ lit ''00123'')\<rparr>]"

definition tab_dedup :: "norm_row list" where
  "tab_dedup =
     [\<lparr>name = Some (lit ''GmbH''), iban = Some (lit ''DE'' @ [9] @ lit ''00123''),
       norm_name = lit ''gmbh''\<rparr>]"

text \<open>
  Two texts with code points beyond ASCII, and their normal forms. The first has the
  capital \<open>U\<close> with diaeresis (U+00DC), the capital \<open>I\<close> with dot above (U+0130), a
  capital sigma after a space and one after a letter (U+03A3), and ends with a
  no-break space (U+00A0). The second begins with two spaces and U+00DC and ends with
  the control character U+0085, a whitespace character.
\<close>

definition mueller_text :: str where
  "mueller_text =
     lit ''  M'' @ [0xDC] @ lit ''LLER,  '' @ [0x130] @ lit ''stanbul '' @ [capital_sigma]
       @ lit ''A'' @ [capital_sigma, 0xA0]"

definition mueller_norm :: str where
  "mueller_norm =
     lit ''m'' @ [0xFC] @ lit ''ller istanbul '' @ [small_sigma] @ lit ''a''
       @ [final_small_sigma]"

definition ueber_text :: str where
  "ueber_text = lit ''  '' @ [0xDC] @ lit ''BER,  GmbH. '' @ [0x85]"

definition ueber_norm :: str where
  "ueber_norm = [0xFC] @ lit ''ber gmbh''"

section \<open>Python strings: facts\<close>

subsection \<open>Lower-casing\<close>

lemma lower_chars:
  assumes "d \<in> set (lower db s)"
  shows "d = small_sigma \<or> d = final_small_sigma
         \<or> (\<exists>c. c \<noteq> capital_sigma \<and> d \<in> set (lower_full db c))"
proof -
  from assms obtain i where "d \<in> set (lower_at db s i)"
    by (auto simp: lower_def)
  then show ?thesis
    by (auto simp: lower_at_def split: if_splits)
qed

lemma concat_singletons: "concat (map (\<lambda>x. [f x]) xs) = map f xs"
  by (induction xs) simp_all

lemma lower_fixed:
  assumes "\<forall>d\<in>set t. d \<noteq> capital_sigma \<and> lower_full db d = [d]"
  shows "lower db t = t"
proof -
  have m: "map (lower_at db t) [0..<length t] = map (\<lambda>i. [t ! i]) [0..<length t]"
    using assms by (intro map_cong refl) (simp add: lower_at_def)
  have "lower db t = concat (map (\<lambda>i. [t ! i]) [0..<length t])"
    unfolding lower_def m ..
  also have "\<dots> = map (\<lambda>i. t ! i) [0..<length t]"
    by (rule concat_singletons)
  also have "\<dots> = t"
    by (rule map_nth)
  finally show ?thesis .
qed

lemma lower_stable_chars:
  assumes "lower_stable db" "d \<in> set (lower db s)"
  shows "d \<noteq> capital_sigma \<and> lower_full db d = [d]"
  using lower_chars [OF assms(2)] assms(1) by (auto simp: lower_stable_def)

subsection \<open>Replacing runs of spaces\<close>

lemma re_sub_spaces_Cons_other:
  "c \<noteq> space \<Longrightarrow> re_sub_spaces rep (c # s) = c # re_sub_spaces rep s"
  by (cases s) simp_all

lemma re_sub_spaces_hd:
  "s \<noteq> [] \<Longrightarrow> re_sub_spaces [space] s \<noteq> [] \<and> hd (re_sub_spaces [space] s) = hd s"
  by (induction "[space]" s rule: re_sub_spaces.induct) auto

lemma re_sub_spaces_last:
  "s \<noteq> [] \<Longrightarrow> last (re_sub_spaces [space] s) = last s"
  by (induction "[space]" s rule: re_sub_spaces.induct) (auto simp: re_sub_spaces_hd)

lemma re_sub_spaces_set: "set (re_sub_spaces [space] s) \<subseteq> set s"
  by (induction "[space]" s rule: re_sub_spaces.induct) auto

lemma re_sub_spaces_idem:
  "re_sub_spaces [space] (re_sub_spaces [space] s) = re_sub_spaces [space] s"
proof (induction "[space]" s rule: re_sub_spaces.induct)
  case 1
  then show ?case by simp
next
  case (2 c)
  then show ?case by simp
next
  case (3 c d cs)
  obtain e es where r: "re_sub_spaces [space] (d # cs) = e # es" and e: "e = d"
    using re_sub_spaces_hd [of "d # cs"] by (cases "re_sub_spaces [space] (d # cs)") auto
  show ?case
  proof (cases "c = space")
    case True
    then show ?thesis using 3 r e by (cases "d = space") auto
  next
    case False
    then show ?thesis using 3 r e by (simp add: re_sub_spaces_Cons_other)
  qed
qed

lemma re_sub_spaces_no_double: "no_double_space (re_sub_spaces [space] s)"
proof (induction "[space]" s rule: re_sub_spaces.induct)
  case (3 c d cs)
  obtain e es where r: "re_sub_spaces [space] (d # cs) = e # es" and e: "e = d"
    using re_sub_spaces_hd [of "d # cs"] by (cases "re_sub_spaces [space] (d # cs)") auto
  then show ?case using 3 by auto
qed simp_all

lemma no_double_space_infix:
  "no_double_space s \<Longrightarrow> s \<noteq> u @ space # space # v"
proof (induction u arbitrary: s)
  case Nil
  then show ?case by auto
next
  case (Cons a u)
  show ?case
  proof
    assume s: "s = (a # u) @ space # space # v"
    then obtain b w where "u @ space # space # v = b # w"
      by (cases "u @ space # space # v") auto
    with s Cons.prems have "no_double_space (u @ space # space # v)" by simp
    with Cons.IH show False by blast
  qed
qed

lemma re_sub_spaces_Nil: "re_sub_spaces [] s = filter (\<lambda>c. c \<noteq> space) s"
  by (induction "[] :: str" s rule: re_sub_spaces.induct) auto

subsection \<open>Stripping\<close>

lemma strip_Nil: "strip db [] = []"
  by (simp add: strip_def)

lemma strip_is_stripped: "stripped db (strip db s)"
proof -
  define a where "a = dropWhile (isspace db) s"
  define b where "b = dropWhile (isspace db) (rev a)"
  have s: "strip db s = rev b" by (simp add: strip_def a_def b_def)
  show ?thesis
  proof (cases "b = []")
    case True
    then show ?thesis by (simp add: stripped_def s)
  next
    case False
    then have hb: "\<not> isspace db (hd b)"
      unfolding b_def by (metis hd_dropWhile)
    from False have a: "a \<noteq> []" unfolding b_def by auto
    then have ha: "\<not> isspace db (hd a)"
      unfolding a_def by (metis hd_dropWhile)
    have "rev a = takeWhile (isspace db) (rev a) @ b"
      unfolding b_def by simp
    then have "last (rev a) = last b" using False by (metis last_appendR)
    then have "last b = hd a" using a by (simp add: last_rev)
    then have "\<not> isspace db (hd (rev b))"
      using False ha by (simp add: hd_rev)
    moreover have "\<not> isspace db (last (rev b))" using hb False by (simp add: last_rev)
    ultimately show ?thesis by (simp add: stripped_def s)
  qed
qed

lemma strip_stripped: "stripped db s \<Longrightarrow> strip db s = s"
proof (cases "s = []")
  case True
  then show ?thesis by (simp add: strip_def)
next
  case False
  assume "stripped db s"
  with False have h: "\<not> isspace db (hd s)" and l: "\<not> isspace db (last s)"
    by (auto simp: stripped_def)
  from h False have 1: "dropWhile (isspace db) s = s" by (cases s) auto
  from l False have "\<not> isspace db (hd (rev s))" by (simp add: hd_rev)
  with False have 2: "dropWhile (isspace db) (rev s) = rev s" by (cases "rev s") auto
  show ?thesis by (simp add: strip_def 1 2)
qed

lemma stripped_re_sub_spaces: "stripped db s \<Longrightarrow> stripped db (re_sub_spaces [space] s)"
  unfolding stripped_def using re_sub_spaces_hd [of s] re_sub_spaces_last [of s]
  by (cases "s = []") auto

lemma strip_set: "set (strip db s) \<subseteq> set s"
proof -
  have "set (strip db s) \<subseteq> set (dropWhile (isspace db) s)"
    unfolding strip_def using set_dropWhileD by fastforce
  then show ?thesis using set_dropWhileD by fastforce
qed

lemma no_space_stripped: "\<forall>c\<in>set s. \<not> isspace db c \<Longrightarrow> stripped db s"
  by (cases s) (auto simp: stripped_def)

section \<open>Normalizer\<close>

lemma normalize_text_chars:
  assumes "c \<in> set (normalize_text db s)"
  shows "(isword db c \<or> isspace db c) \<and> c \<in> set (lower db s)"
proof -
  have "c \<in> set (re_sub_not_word_space db (lower db s))"
    using assms re_sub_spaces_set strip_set unfolding normalize_text_def by blast
  then show ?thesis
    by (auto simp: re_sub_not_word_space_def)
qed

lemma normalize_text_stripped: "stripped db (normalize_text db s)"
  unfolding normalize_text_def by (rule stripped_re_sub_spaces) (rule strip_is_stripped)

lemma normalize_text_lower:
  assumes "lower_stable db"
  shows "lower db (normalize_text db s) = normalize_text db s"
  by (rule lower_fixed) (use normalize_text_chars lower_stable_chars [OF assms] in blast)

lemma space_isspace: "isspace db space"
  by (simp add: isspace_def)

lemma lower_stable_ascii: "lower_stable ascii_db"
  by (auto simp: lower_stable_def lower_full_def ascii_db_def)

lemma lower_stable_sample: "lower_stable sample_db"
  by (auto simp: lower_stable_def lower_full_def sample_db_def)

lemma normalize_text_mueller: "normalize_text sample_db mueller_text = mueller_norm"
  by code_simp

lemma normalize_text_ueber: "normalize_text sample_db ueber_text = ueber_norm"
  by code_simp

text \<open>
  C9. Normalisation is idempotent: for every string \<open>s\<close>, normalising the normalised
  string gives the normalised string. It holds for every character database whose
  lower-case mapping is stable, as the one of Python is.
\<close>

theorem normalize_text_idempotent:
  assumes "lower_stable db"
  shows "normalize_text db (normalize_text db s) = normalize_text db s"
proof -
  let ?x = "normalize_text db s"
  have 1: "lower db ?x = ?x"
    by (rule normalize_text_lower [OF assms])
  have 2: "re_sub_not_word_space db ?x = ?x"
    unfolding re_sub_not_word_space_def using normalize_text_chars [of _ db s] by simp
  have 3: "strip db ?x = ?x"
    by (rule strip_stripped) (rule normalize_text_stripped)
  have 4: "re_sub_spaces [space] ?x = ?x"
    unfolding normalize_text_def by (rule re_sub_spaces_idem)
  have "normalize_text db ?x
          = re_sub_spaces [space] (strip db (re_sub_not_word_space db (lower db ?x)))"
    by (simp only: normalize_text_def)
  then show ?thesis by (simp only: 1 2 3 4)
qed

text \<open>
  The property of C9 at the second text beyond ASCII (two spaces, U+00DC,
  \<open>"BER,  GmbH. "\<close>, U+0085), whose normal form is U+00FC followed by \<open>"ber gmbh"\<close>,
  with the sample database, whose lower-case mapping is stable.
\<close>

theorem normalize_text_idempotent_witness:
  "lower_stable sample_db
   \<and> normalize_text sample_db ueber_text = ueber_norm
   \<and> normalize_text sample_db (normalize_text sample_db ueber_text) = ueber_norm"
  using normalize_text_idempotent [OF lower_stable_sample, of ueber_text]
  by (simp only: lower_stable_sample normalize_text_ueber simp_thms)

text \<open>
  C7 as the specification states it fails: the underscore is a word character of the
  regular expression and stays in the result, though it is neither alphanumeric nor a
  space; and only runs of the space character are collapsed, so a run of two tab
  characters (code point 9, a whitespace character) inside the text stays as it is.
\<close>

theorem normalize_text_claimed_form_counterexample:
  "normalize_text ascii_db (lit ''a_b'') = lit ''a_b''
   \<and> normalize_text ascii_db (lit ''a'' @ [9, 9] @ lit ''b'') = lit ''a'' @ [9, 9] @ lit ''b''
   \<and> isspace ascii_db 9"
  by code_simp

text \<open>
  C7 (amended). For every input string, \<open>normalize_text\<close> returns a string that
  contains only characters of the lower-cased input, each of them a word character
  (alphanumeric or the underscore) or a whitespace character; it has no leading and no
  trailing whitespace; and every run of space characters is collapsed to a single
  space: the result nowhere contains two spaces in a row. When the lower-case mapping
  of the character database is stable, as the one of Python is, the result is its own
  lower-casing.
\<close>

theorem normalize_text_normal_form:
  "(\<forall>c\<in>set (normalize_text db s). (isword db c \<or> isspace db c) \<and> c \<in> set (lower db s))
   \<and> (normalize_text db s \<noteq> [] \<longrightarrow>
        \<not> isspace db (hd (normalize_text db s)) \<and> \<not> isspace db (last (normalize_text db s)))
   \<and> \<not> (\<exists>u v. normalize_text db s = u @ [space, space] @ v)
   \<and> (lower_stable db \<longrightarrow> lower db (normalize_text db s) = normalize_text db s)"
proof (intro conjI)
  show "\<forall>c\<in>set (normalize_text db s). (isword db c \<or> isspace db c) \<and> c \<in> set (lower db s)"
    using normalize_text_chars [of _ db s] by blast
next
  show "normalize_text db s \<noteq> [] \<longrightarrow>
        \<not> isspace db (hd (normalize_text db s)) \<and> \<not> isspace db (last (normalize_text db s))"
    using normalize_text_stripped [of db s] by (auto simp: stripped_def)
next
  have "no_double_space (normalize_text db s)"
    unfolding normalize_text_def by (rule re_sub_spaces_no_double)
  then show "\<not> (\<exists>u v. normalize_text db s = u @ [space, space] @ v)"
    using no_double_space_infix by auto
next
  show "lower_stable db \<longrightarrow> lower db (normalize_text db s) = normalize_text db s"
    using normalize_text_lower [of db s] by blast
qed

text \<open>
  The normal form of C7 at the first text beyond ASCII with the sample database, whose
  lower-case mapping is stable: U+00DC becomes U+00FC, U+0130 becomes \<open>i\<close> (its
  combining dot is no word character and is removed), the two capital sigmas become
  U+03C3 and the final U+03C2, and the no-break space at the end is stripped. The
  result is not empty, so the properties speak about its characters and its ends.
\<close>

theorem normalize_text_normal_form_witness:
  "lower_stable sample_db
   \<and> normalize_text sample_db mueller_text = mueller_norm
   \<and> list_all (\<lambda>c. (isword sample_db c \<or> isspace sample_db c)
                    \<and> c \<in> set (lower sample_db mueller_text))
        (normalize_text sample_db mueller_text)
   \<and> \<not> isspace sample_db (hd (normalize_text sample_db mueller_text))
   \<and> \<not> isspace sample_db (last (normalize_text sample_db mueller_text))
   \<and> \<not> (\<exists>u v. normalize_text sample_db mueller_text = u @ [space, space] @ v)
   \<and> lower sample_db (normalize_text sample_db mueller_text)
       = normalize_text sample_db mueller_text"
proof -
  have ne: "normalize_text sample_db mueller_text \<noteq> []"
    unfolding normalize_text_mueller by (simp add: mueller_norm_def lit_def)
  note t = normalize_text_normal_form [of sample_db mueller_text]
  have 1: "list_all (\<lambda>c. (isword sample_db c \<or> isspace sample_db c)
                    \<and> c \<in> set (lower sample_db mueller_text))
        (normalize_text sample_db mueller_text)"
    using t [THEN conjunct1] unfolding list_all_iff .
  have 2: "\<not> isspace sample_db (hd (normalize_text sample_db mueller_text))
           \<and> \<not> isspace sample_db (last (normalize_text sample_db mueller_text))"
    by (rule t [THEN conjunct2, THEN conjunct1, THEN mp, OF ne])
  note 3 = t [THEN conjunct2, THEN conjunct2, THEN conjunct1]
  note 4 = t [THEN conjunct2, THEN conjunct2, THEN conjunct2, THEN mp, OF lower_stable_sample]
  show ?thesis
    by (intro conjI lower_stable_sample normalize_text_mueller 1 2 [THEN conjunct1]
        2 [THEN conjunct2] 3 4)
qed

section \<open>IdentifierTruncator\<close>

lemma remove_last_digits_iban_no_space:
  assumes "\<forall>c\<in>set s. \<not> isspace db c"
  shows "remove_last_digits_iban db s = take (length s - 2) s"
proof -
  have f: "filter (\<lambda>c. c \<noteq> space) s = s"
    using assms space_isspace [of db] by (auto simp: filter_id_conv)
  have "\<forall>c\<in>set (take (length s - 2) s). \<not> isspace db c"
    using assms by (meson in_set_takeD)
  then have "strip db (take (length s - 2) s) = take (length s - 2) s"
    by (intro strip_stripped no_space_stripped)
  then show ?thesis
    by (simp add: remove_last_digits_iban_def re_sub_spaces_Nil f drop_last_two_def strip_def)
qed

text \<open>
  C6 as the specification states it fails: the identifier made of \<open>A\<close> and two tab
  characters has one character after the removal of all whitespace, yet the result is
  \<open>"A"\<close>, not the empty string. Only space characters are removed before the last two
  characters are dropped, and the tabs are the two characters dropped.
\<close>

theorem remove_last_digits_iban_whitespace_counterexample:
  "length (filter (\<lambda>c. \<not> isspace ascii_db c) (lit ''A'' @ [9, 9])) < 2
   \<and> remove_last_digits_iban ascii_db (lit ''A'' @ [9, 9]) = lit ''A''"
  by code_simp

text \<open>
  C6 (amended). \<open>remove_last_digits_iban\<close> removes all space characters from the
  identifier, then drops the last 2 characters, then strips leading and trailing
  whitespace. For every identifier that is whitespace-free with length at least 2 the
  result is the identifier without its last 2 characters, so its length is the input's
  length minus 2. For every identifier whose length after the removal of the space
  characters is less than 2 the result is the empty string; nothing is raised.
\<close>

theorem remove_last_digits_iban_truncates:
  "remove_last_digits_iban db s =
     strip db (take (length (filter (\<lambda>c. c \<noteq> space) s) - 2) (filter (\<lambda>c. c \<noteq> space) s))
   \<and> ((\<forall>c\<in>set s. \<not> isspace db c) \<and> 2 \<le> length s \<longrightarrow>
        remove_last_digits_iban db s = take (length s - 2) s
        \<and> length (remove_last_digits_iban db s) = length s - 2)
   \<and> (length (filter (\<lambda>c. c \<noteq> space) s) < 2 \<longrightarrow> remove_last_digits_iban db s = [])"
proof (intro conjI impI)
  show "remove_last_digits_iban db s =
     strip db (take (length (filter (\<lambda>c. c \<noteq> space) s) - 2) (filter (\<lambda>c. c \<noteq> space) s))"
    by (simp add: remove_last_digits_iban_def re_sub_spaces_Nil drop_last_two_def strip_Nil)
next
  assume "(\<forall>c\<in>set s. \<not> isspace db c) \<and> 2 \<le> length s"
  then show "remove_last_digits_iban db s = take (length s - 2) s"
    by (simp add: remove_last_digits_iban_no_space)
next
  assume "(\<forall>c\<in>set s. \<not> isspace db c) \<and> 2 \<le> length s"
  then show "length (remove_last_digits_iban db s) = length s - 2"
    by (simp add: remove_last_digits_iban_no_space)
next
  assume "length (filter (\<lambda>c. c \<noteq> space) s) < 2"
  then show "remove_last_digits_iban db s = []"
    by (simp add: remove_last_digits_iban_def re_sub_spaces_Nil drop_last_two_def strip_Nil)
qed

text \<open>
  The truncation of C6 at the identifier \<open>"DE001"\<close>, which is whitespace-free and has
  five characters, and at the identifier \<open>"A"\<close>, which has fewer than two.
\<close>

theorem remove_last_digits_iban_truncates_witness:
  "list_all (\<lambda>c. \<not> isspace ascii_db c) (lit ''DE001'') \<and> 2 \<le> length (lit ''DE001'')
   \<and> remove_last_digits_iban ascii_db (lit ''DE001'') = lit ''DE0''
   \<and> length (remove_last_digits_iban ascii_db (lit ''DE001'')) = length (lit ''DE001'') - 2
   \<and> length (filter (\<lambda>c. c \<noteq> space) (lit ''A'')) < 2
   \<and> remove_last_digits_iban ascii_db (lit ''A'') = []"
proof -
  have h1: "(\<forall>c\<in>set (lit ''DE001''). \<not> isspace ascii_db c) \<and> 2 \<le> length (lit ''DE001'')"
    by (simp add: isspace_def lit_def)
  have h2: "length (filter (\<lambda>c. c \<noteq> space) (lit ''A'')) < 2"
    by (simp add: lit_def)
  from remove_last_digits_iban_truncates [of ascii_db "lit ''DE001''"] h1
  have 1: "remove_last_digits_iban ascii_db (lit ''DE001'')
             = take (length (lit ''DE001'') - 2) (lit ''DE001'')"
    and 2: "length (remove_last_digits_iban ascii_db (lit ''DE001'')) = length (lit ''DE001'') - 2"
    by blast+
  from remove_last_digits_iban_truncates [of ascii_db "lit ''A''"] h2
  have 3: "remove_last_digits_iban ascii_db (lit ''A'') = []"
    by blast
  from 1 have 4: "remove_last_digits_iban ascii_db (lit ''DE001'') = lit ''DE0''"
    by (simp add: lit_def)
  have la: "list_all (\<lambda>c. \<not> isspace ascii_db c) (lit ''DE001'')"
    using h1 unfolding list_all_iff by blast
  show ?thesis by (intro conjI la h1 [THEN conjunct2] 4 2 h2 3)
qed

section \<open>EntityMatcher\<close>

lemma argmax_from_first_max:
  "(argmax_from best bv i vs = best \<and> (\<forall>v\<in>set vs. v \<le> bv))
   \<or> (\<exists>k<length vs. argmax_from best bv i vs = i + k \<and> bv < vs ! k
        \<and> (\<forall>j<length vs. vs ! j \<le> vs ! k) \<and> (\<forall>j<k. vs ! j < vs ! k))"
proof (induction vs arbitrary: best bv i)
  case Nil
  then show ?case by simp
next
  case (Cons v vs)
  show ?case
  proof (cases "bv < v")
    case True
    from Cons.IH [of i v "Suc i"] show ?thesis
    proof
      assume a: "argmax_from i v (Suc i) vs = i \<and> (\<forall>x\<in>set vs. x \<le> v)"
      have "\<forall>j<length (v # vs). (v # vs) ! j \<le> (v # vs) ! 0"
        using a by (auto simp: nth_Cons split: nat.splits)
      then show ?thesis using a True by (intro disjI2 exI [of _ 0]) simp
    next
      assume "\<exists>k<length vs. argmax_from i v (Suc i) vs = Suc i + k \<and> v < vs ! k
        \<and> (\<forall>j<length vs. vs ! j \<le> vs ! k) \<and> (\<forall>j<k. vs ! j < vs ! k)"
      then obtain k where k: "k < length vs" "argmax_from i v (Suc i) vs = Suc i + k"
        "v < vs ! k" "\<forall>j<length vs. vs ! j \<le> vs ! k" "\<forall>j<k. vs ! j < vs ! k" by blast
      have 1: "\<forall>j<length (v # vs). (v # vs) ! j \<le> (v # vs) ! Suc k"
        using k by (auto simp: nth_Cons split: nat.splits)
      have 2: "\<forall>j<Suc k. (v # vs) ! j < (v # vs) ! Suc k"
        using k by (auto simp: nth_Cons split: nat.splits)
      show ?thesis using k True 1 2 by (intro disjI2 exI [of _ "Suc k"]) simp
    qed
  next
    case False
    from Cons.IH [of best bv "Suc i"] show ?thesis
    proof
      assume "argmax_from best bv (Suc i) vs = best \<and> (\<forall>x\<in>set vs. x \<le> bv)"
      then show ?thesis using False by simp
    next
      assume "\<exists>k<length vs. argmax_from best bv (Suc i) vs = Suc i + k \<and> bv < vs ! k
        \<and> (\<forall>j<length vs. vs ! j \<le> vs ! k) \<and> (\<forall>j<k. vs ! j < vs ! k)"
      then obtain k where k: "k < length vs" "argmax_from best bv (Suc i) vs = Suc i + k"
        "bv < vs ! k" "\<forall>j<length vs. vs ! j \<le> vs ! k" "\<forall>j<k. vs ! j < vs ! k" by blast
      have 1: "\<forall>j<length (v # vs). (v # vs) ! j \<le> (v # vs) ! Suc k"
        using k False by (auto simp: nth_Cons split: nat.splits)
      have 2: "\<forall>j<Suc k. (v # vs) ! j < (v # vs) ! Suc k"
        using k False by (auto simp: nth_Cons split: nat.splits)
      show ?thesis using k False 1 2 by (intro disjI2 exI [of _ "Suc k"]) simp
    qed
  qed
qed

lemma argmax_first_max:
  assumes "vs \<noteq> []"
  shows "\<exists>i<length vs. argmax vs = Some i \<and> (\<forall>j<length vs. vs ! j \<le> vs ! i)
           \<and> (\<forall>j<i. vs ! j < vs ! i)"
proof -
  from assms obtain v ws where vs: "vs = v # ws" by (cases vs) auto
  from argmax_from_first_max [of 0 v 1 ws] show ?thesis
  proof
    assume a: "argmax_from 0 v 1 ws = 0 \<and> (\<forall>x\<in>set ws. x \<le> v)"
    have "\<forall>j<length vs. vs ! j \<le> vs ! 0"
      using a vs by (auto simp: nth_Cons split: nat.splits)
    then show ?thesis using a vs by (intro exI [of _ 0]) simp
  next
    assume "\<exists>k<length ws. argmax_from 0 v 1 ws = 1 + k \<and> v < ws ! k
        \<and> (\<forall>j<length ws. ws ! j \<le> ws ! k) \<and> (\<forall>j<k. ws ! j < ws ! k)"
    then obtain k where k: "k < length ws" "argmax_from 0 v 1 ws = 1 + k"
      "v < ws ! k" "\<forall>j<length ws. ws ! j \<le> ws ! k" "\<forall>j<k. ws ! j < ws ! k" by blast
    have 1: "\<forall>j<length vs. vs ! j \<le> vs ! Suc k"
      using k vs by (auto simp: nth_Cons split: nat.splits)
    have 2: "\<forall>j<Suc k. vs ! j < vs ! Suc k"
      using k vs by (auto simp: nth_Cons split: nat.splits)
    show ?thesis using k vs 1 2 by (intro exI [of _ "Suc k"]) simp
  qed
qed

lemma get_company_match_first_max:
  assumes "us \<noteq> []"
  shows "\<exists>i<length us. argmax (map (\<lambda>u. tsr u q) us) = Some i
           \<and> (\<forall>j<length us. tsr (us ! j) q \<le> tsr (us ! i) q)
           \<and> (\<forall>j<i. tsr (us ! j) q < tsr (us ! i) q)
           \<and> get_company_match db tsr q us =
               Inr (capitalize db (join [space] (butlast (split db (us ! i)))))"
proof -
  let ?vs = "map (\<lambda>u. tsr u q) us"
  from assms have "?vs \<noteq> []" by simp
  from argmax_first_max [OF this] obtain i where i: "i < length ?vs" "argmax ?vs = Some i"
    "\<forall>j<length ?vs. ?vs ! j \<le> ?vs ! i" "\<forall>j<i. ?vs ! j < ?vs ! i" by blast
  have "i < length us" using i(1) by simp
  moreover have "\<forall>j<length us. tsr (us ! j) q \<le> tsr (us ! i) q"
    using i(1,3) by simp
  moreover have "\<forall>j<i. tsr (us ! j) q < tsr (us ! i) q"
    using i(1,4) by simp
  moreover have "get_company_match db tsr q us =
               Inr (capitalize db (join [space] (butlast (split db (us ! i)))))"
    using i(2) by (simp add: get_company_match_def)
  ultimately show ?thesis using i(2) by blast
qed

text \<open>
  C2 as the specification states it fails: the candidate key of a row with the name
  \<open>acme\<close> and the identifier \<open>DE<tab>00123\<close> has three tokens; the last is dropped,
  and \<open>capitalize\<close> lower-cases every character after the first, so the result is
  \<open>"Acme de"\<close>, whereas capitalising the first letter only gives \<open>"Acme DE"\<close>.
\<close>

theorem get_company_match_capitalize_counterexample:
  "get_company_match ascii_db (\<lambda>u q. 0) (lit ''acme DE'' @ [9] @ lit ''00123'')
       [lit ''acme DE'' @ [9] @ lit ''001'']
     = Inr (lit ''Acme de'')
   \<and> capitalize_first_letter_only ascii_db
       (join [space] (butlast (split ascii_db (lit ''acme DE'' @ [9] @ lit ''001''))))
     = lit ''Acme DE''"
  by code_simp

text \<open>
  C2 (amended). For every non-empty canonical universe and every query key,
  \<open>get_company_match\<close> returns the universe member with the maximum token-set-ratio
  score, on ties the first maximum in the order of the universe, transformed by
  splitting on whitespace, dropping the last token, rejoining the remaining tokens with
  single spaces, and applying \<open>capitalize\<close>: the first character is upper-cased (by
  the title-case mapping of the character data) and every other character is
  lower-cased.
\<close>

theorem get_company_match_best_first:
  assumes "unique_companies \<noteq> []"
  shows "\<exists>i<length unique_companies.
           (\<forall>j<length unique_companies.
              tsr (unique_companies ! j) actual_company
                \<le> tsr (unique_companies ! i) actual_company)
           \<and> (\<forall>j<i. tsr (unique_companies ! j) actual_company
                       < tsr (unique_companies ! i) actual_company)
           \<and> get_company_match db tsr actual_company unique_companies =
               Inr (capitalize db (join [space] (butlast (split db (unique_companies ! i)))))"
  using get_company_match_first_max [OF assms, of tsr actual_company db] by blast

text \<open>
  The match of C2 in a universe of four keys scored by their length: the second and
  the third key share the maximum, and the second is returned.
\<close>

theorem get_company_match_best_first_witness:
  "[lit ''ab c'', lit ''abcd e'', lit ''abxx f'', lit ''a''] \<noteq> []
   \<and> (\<exists>i<length [lit ''ab c'', lit ''abcd e'', lit ''abxx f'', lit ''a''].
         get_company_match ascii_db (\<lambda>u q. int (length u)) (lit ''x'')
             [lit ''ab c'', lit ''abcd e'', lit ''abxx f'', lit ''a'']
           = Inr (capitalize ascii_db (join [space] (butlast (split ascii_db
                   ([lit ''ab c'', lit ''abcd e'', lit ''abxx f'', lit ''a''] ! i))))))
   \<and> get_company_match ascii_db (\<lambda>u q. int (length u)) (lit ''x'')
         [lit ''ab c'', lit ''abcd e'', lit ''abxx f'', lit ''a'']
       = Inr (lit ''Abcd'')"
proof -
  have ne: "[lit ''ab c'', lit ''abcd e'', lit ''abxx f'', lit ''a''] \<noteq> []" by simp
  have ev: "get_company_match ascii_db (\<lambda>u q. int (length u)) (lit ''x'')
              [lit ''ab c'', lit ''abcd e'', lit ''abxx f'', lit ''a''] = Inr (lit ''Abcd'')"
    by code_simp
  from get_company_match_best_first
         [OF ne, of "\<lambda>u q. int (length u)" "lit ''x''" ascii_db] ne ev
  show ?thesis by blast
qed

text \<open>
  C3 as the specification states it fails: with an empty universe the call ends in the
  \<open>ValueError\<close> that numpy's \<open>argmax\<close> raises on an empty array, a generic exception of
  a library; the function has no check and no failure result of its own.
\<close>

theorem get_company_match_empty_counterexample:
  "get_company_match ascii_db (\<lambda>u q. 0) (lit ''acme corp DE001'') [] = Inl ValueError"
  by code_simp

text \<open>
  C3 (amended). When \<open>get_company_match\<close> is given an empty canonical universe, it
  returns no name (in particular no silent empty result): for every query key and
  every scoring function the call raises the \<open>ValueError\<close> of numpy's \<open>argmax\<close>.
\<close>

theorem get_company_match_empty_raises:
  "get_company_match db tsr actual_company [] = Inl ValueError"
  by (simp add: get_company_match_def)

section \<open>Aggregator\<close>

lemma groupby_keys: "map fst (groupby_company df) = sort (remdups (map company df))"
  by (simp add: groupby_company_def comp_def)

lemma generate_group_by_company_map:
  "generate_group_by_company df =
     map (\<lambda>c. \<lparr>entity_name = c,
               observed_names = name ` {r \<in> set df. company r = c},
               observed_identifiers = iban ` {r \<in> set df. company r = c}\<rparr>)
         (sort (remdups (map company df)))"
  by (simp add: generate_group_by_company_def groupby_company_def comp_def)

lemma entity_names_sorted:
  "map entity_name (generate_group_by_company df) = sort (remdups (map company df))"
  by (simp add: generate_group_by_company_map comp_def)

lemma entity_names_distinct: "distinct (map entity_name (generate_group_by_company df))"
  by (simp add: entity_names_sorted)

lemma entity_names_set: "set (map entity_name (generate_group_by_company df)) = company ` set df"
  by (simp add: entity_names_sorted)

lemma entity_of_group:
  assumes "e \<in> set (generate_group_by_company df)"
  shows "entity_name e \<in> company ` set df
         \<and> observed_names e = name ` {r \<in> set df. company r = entity_name e}
         \<and> observed_identifiers e = iban ` {r \<in> set df. company r = entity_name e}"
  using assms by (auto simp: generate_group_by_company_map)

lemma entity_of_row:
  assumes "r \<in> set df"
  shows "\<exists>e\<in>set (generate_group_by_company df).
           entity_name e = company r \<and> name r \<in> observed_names e
           \<and> iban r \<in> observed_identifiers e"
proof -
  let ?e = "\<lparr>entity_name = company r,
               observed_names = name ` {x \<in> set df. company x = company r},
               observed_identifiers = iban ` {x \<in> set df. company x = company r}\<rparr>"
  have "?e \<in> set (generate_group_by_company df)"
    using assms by (auto simp: generate_group_by_company_map)
  moreover have "entity_name ?e = company r \<and> name r \<in> observed_names ?e
           \<and> iban r \<in> observed_identifiers ?e"
    using assms by auto
  ultimately show ?thesis by blast
qed

lemma entity_unique:
  assumes "e \<in> set (generate_group_by_company df)" "e' \<in> set (generate_group_by_company df)"
    "entity_name e = entity_name e'"
  shows "e = e'"
  using assms by (auto simp: generate_group_by_company_map)

lemma agg_example_result:
  "generate_group_by_company agg_example =
     [\<lparr>entity_name = [], observed_names = {Some (lit ''gmbh'')},
       observed_identifiers = {Some (lit ''DE002'')}\<rparr>,
      \<lparr>entity_name = lit ''Acme'',
       observed_names = {Some (lit ''Acme Corp''), Some (lit ''acme'')},
       observed_identifiers = {Some (lit ''DE001''), Some (lit ''DE003'')}\<rparr>,
      \<lparr>entity_name = lit ''Beta'', observed_names = {Some (lit ''Beta Ltd'')},
       observed_identifiers = {Some (lit ''FR761'')}\<rparr>]"
  by code_simp

lemma agg_example_names:
  "name ` set agg_example =
     {Some (lit ''Beta Ltd''), Some (lit ''Acme Corp''), Some (lit ''gmbh''), Some (lit ''acme'')}"
  by (simp add: agg_example_def)

lemma agg_example_companies:
  "company ` set agg_example = {lit ''Beta'', lit ''Acme'', []}"
  by (auto simp: agg_example_def)

text \<open>
  C8. For every table of matched rows, the union of the observed names of all output
  entities is the set of the name cells of the input; every input row belongs to
  exactly one output entity, the one named by its company; each output entity holds
  the set of the name cells and the set of the IBAN cells of the rows of its company;
  and there is one output row for each distinct company.
\<close>

theorem generate_group_by_company_partition:
  "\<Union> (observed_names ` set (generate_group_by_company df)) = name ` set df
   \<and> (\<forall>r\<in>set df. \<exists>!e. e \<in> set (generate_group_by_company df) \<and> entity_name e = company r)
   \<and> (\<forall>e\<in>set (generate_group_by_company df).
         observed_names e = name ` {r \<in> set df. company r = entity_name e}
         \<and> observed_identifiers e = iban ` {r \<in> set df. company r = entity_name e})
   \<and> distinct (map entity_name (generate_group_by_company df))
   \<and> set (map entity_name (generate_group_by_company df)) = company ` set df"
proof (intro conjI)
  show "\<Union> (observed_names ` set (generate_group_by_company df)) = name ` set df"
  proof
    show "\<Union> (observed_names ` set (generate_group_by_company df)) \<subseteq> name ` set df"
      using entity_of_group [of _ df] by auto
    show "name ` set df \<subseteq> \<Union> (observed_names ` set (generate_group_by_company df))"
      using entity_of_row [of _ df] by auto
  qed
next
  show "\<forall>r\<in>set df. \<exists>!e. e \<in> set (generate_group_by_company df) \<and> entity_name e = company r"
  proof
    fix r assume "r \<in> set df"
    from entity_of_row [OF this] obtain e where
      "e \<in> set (generate_group_by_company df)" "entity_name e = company r" by blast
    then show "\<exists>!e. e \<in> set (generate_group_by_company df) \<and> entity_name e = company r"
      using entity_unique [of _ df] by (intro ex1I [of _ e]) auto
  qed
next
  show "\<forall>e\<in>set (generate_group_by_company df).
         observed_names e = name ` {r \<in> set df. company r = entity_name e}
         \<and> observed_identifiers e = iban ` {r \<in> set df. company r = entity_name e}"
    using entity_of_group [of _ df] by blast
next
  show "distinct (map entity_name (generate_group_by_company df))"
    by (rule entity_names_distinct)
next
  show "set (map entity_name (generate_group_by_company df)) = company ` set df"
    by (rule entity_names_set)
qed

text \<open>
  The aggregation of C8 on the example table of four rows and three companies.
\<close>

theorem generate_group_by_company_partition_witness:
  "\<Union> (observed_names ` set (generate_group_by_company agg_example))
     = {Some (lit ''Beta Ltd''), Some (lit ''Acme Corp''), Some (lit ''gmbh''), Some (lit ''acme'')}
   \<and> distinct (map entity_name (generate_group_by_company agg_example))
   \<and> set (map entity_name (generate_group_by_company agg_example))
       = {lit ''Beta'', lit ''Acme'', []}
   \<and> map entity_name (generate_group_by_company agg_example) = [[], lit ''Acme'', lit ''Beta'']"
proof -
  note t = generate_group_by_company_partition [of agg_example]
  have 1: "\<Union> (observed_names ` set (generate_group_by_company agg_example))
             = {Some (lit ''Beta Ltd''), Some (lit ''Acme Corp''), Some (lit ''gmbh''),
                Some (lit ''acme'')}"
    using t [THEN conjunct1] by (simp only: agg_example_names)
  have 2: "distinct (map entity_name (generate_group_by_company agg_example))"
    by (rule t [THEN conjunct2, THEN conjunct2, THEN conjunct2, THEN conjunct1])
  have 3: "set (map entity_name (generate_group_by_company agg_example))
             = {lit ''Beta'', lit ''Acme'', []}"
    using t [THEN conjunct2, THEN conjunct2, THEN conjunct2, THEN conjunct2]
    by (simp only: agg_example_companies)
  have 4: "map entity_name (generate_group_by_company agg_example)
             = [[], lit ''Acme'', lit ''Beta'']"
    by (simp add: agg_example_result)
  show ?thesis by (intro conjI 1 2 3 4)
qed

section \<open>DuplicateFilter\<close>

lemma apply_rows_map:
  "\<forall>x\<in>set xs. f x = Inr (g x) \<Longrightarrow> apply_rows f xs = Inr (map g xs)"
  by (induction xs) auto

lemma remove_anomaly_data_filter:
  "remove_anomaly_data INVALID df = filter (valid_row INVALID) df"
  by (auto simp: remove_anomaly_data_def valid_row_def intro: filter_cong)

lemma normalize_name_company_valid:
  "normalize_name_company db (filter (valid_row INVALID) df)
     = Inr (map (normalized_row db) (filter (valid_row INVALID) df))"
  unfolding normalize_name_company_def
  by (rule apply_rows_map) (auto simp: valid_row_def normalized_row_def)

lemma drop_dups_by_subset: "set (drop_dups_by key seen xs) \<subseteq> set xs"
  by (induction xs arbitrary: seen) auto

lemma drop_dups_by_distinct:
  "distinct (map key (drop_dups_by key seen xs))
   \<and> key ` set (drop_dups_by key seen xs) \<inter> set seen = {}"
proof (induction xs arbitrary: seen)
  case Nil
  then show ?case by simp
next
  case (Cons x xs)
  show ?case
  proof (cases "key x \<in> set seen")
    case True
    then show ?thesis using Cons.IH [of seen] by simp
  next
    case False
    then show ?thesis using Cons.IH [of "key x # seen"] by auto
  qed
qed

lemma drop_dups_by_map:
  "drop_dups_by key seen (map f xs) = map f (drop_dups_by (\<lambda>x. key (f x)) seen xs)"
  by (induction xs arbitrary: seen) auto

lemma drop_dups_by_key_inj:
  assumes "inj h" "\<forall>x\<in>set xs. k2 x = h (k1 x)"
  shows "drop_dups_by k1 seen xs = drop_dups_by k2 (map h seen) xs"
  using assms(2)
proof (induction xs arbitrary: seen)
  case Nil
  then show ?case by simp
next
  case (Cons x xs)
  have m: "k2 x \<in> set (map h seen) \<longleftrightarrow> k1 x \<in> set seen"
    using Cons.prems assms(1) by (auto simp: inj_def)
  show ?case
  proof (cases "k1 x \<in> set seen")
    case True
    then show ?thesis using m Cons.IH [of seen] Cons.prems by simp
  next
    case False
    then show ?thesis using m Cons.IH [of "k1 x # seen"] Cons.prems by simp
  qed
qed

lemma upt_Suc_shift: "[0..<Suc n] = 0 # map Suc [0..<n]"
  by (simp add: upt_conv_Cons map_Suc_upt del: upt_Suc)

lemma drop_dups_by_filter_index:
  assumes "\<And>x y. key x = key y \<Longrightarrow> P x = P y"
  shows "drop_dups_by key seen (filter P xs) =
           map (\<lambda>i. xs ! i)
             (filter (\<lambda>i. P (xs ! i) \<and> key (xs ! i) \<notin> set seen
                          \<and> (\<forall>j<i. key (xs ! j) \<noteq> key (xs ! i)))
                [0..<length xs])"
proof (induction xs arbitrary: seen)
  case Nil
  then show ?case by simp
next
  case (Cons x xs)
  let ?Q = "\<lambda>s i. P (xs ! i) \<and> key (xs ! i) \<notin> set s
                    \<and> (\<forall>j<i. key (xs ! j) \<noteq> key (xs ! i))"
  let ?R = "\<lambda>i. P ((x # xs) ! i) \<and> key ((x # xs) ! i) \<notin> set seen
                    \<and> (\<forall>j<i. key ((x # xs) ! j) \<noteq> key ((x # xs) ! i))"
  have all: "\<And>i A. (\<forall>j<Suc i. A j) \<longleftrightarrow> A 0 \<and> (\<forall>j<i. A (Suc j))"
    by (auto simp: less_Suc_eq_0_disj)
  have R_Suc: "\<And>i. ?R (Suc i) \<longleftrightarrow> ?Q seen i \<and> key x \<noteq> key (xs ! i)"
    by (auto simp: all)
  have "filter ?R (map Suc [0..<length xs])
          = map Suc (filter (\<lambda>i. ?R (Suc i)) [0..<length xs])"
    by (simp only: filter_map comp_def)
  also have "filter (\<lambda>i. ?R (Suc i)) [0..<length xs]
          = filter (\<lambda>i. ?Q seen i \<and> key x \<noteq> key (xs ! i)) [0..<length xs]"
    by (simp only: R_Suc)
  finally have tail: "map (\<lambda>i. (x # xs) ! i) (filter ?R (map Suc [0..<length xs]))
                = map (\<lambda>i. xs ! i) (filter (\<lambda>i. ?Q seen i \<and> key x \<noteq> key (xs ! i)) [0..<length xs])"
    by (simp add: comp_def)
  have whole: "map (\<lambda>i. (x # xs) ! i) (filter ?R [0..<length (x # xs)])
     = (if P x \<and> key x \<notin> set seen then [x] else [])
       @ map (\<lambda>i. xs ! i) (filter (\<lambda>i. ?Q seen i \<and> key x \<noteq> key (xs ! i)) [0..<length xs])"
    using tail by (simp add: upt_Suc_shift del: upt_Suc)
  show ?case
  proof (cases "P x")
    case False
    have f: "filter (\<lambda>i. ?Q seen i \<and> key x \<noteq> key (xs ! i)) [0..<length xs]
            = filter (?Q seen) [0..<length xs]"
    proof (intro filter_cong refl)
      fix i
      have "P (xs ! i) \<Longrightarrow> key x \<noteq> key (xs ! i)"
        using False assms [of x "xs ! i"] by blast
      then show "(?Q seen i \<and> key x \<noteq> key (xs ! i)) = ?Q seen i" by blast
    qed
    have "drop_dups_by key seen (filter P (x # xs)) = drop_dups_by key seen (filter P xs)"
      using False by simp
    also have "\<dots> = map (\<lambda>i. xs ! i) (filter (?Q seen) [0..<length xs])"
      by (rule Cons.IH)
    also have "\<dots> = map (\<lambda>i. (x # xs) ! i) (filter ?R [0..<length (x # xs)])"
      unfolding whole f using False by simp
    finally show ?thesis .
  next
    case True
    show ?thesis
    proof (cases "key x \<in> set seen")
      case True
      have f: "filter (\<lambda>i. ?Q seen i \<and> key x \<noteq> key (xs ! i)) [0..<length xs]
            = filter (?Q seen) [0..<length xs]"
        using True by (intro filter_cong) auto
      have "drop_dups_by key seen (filter P (x # xs)) = drop_dups_by key seen (filter P xs)"
        using \<open>P x\<close> True by simp
      also have "\<dots> = map (\<lambda>i. xs ! i) (filter (?Q seen) [0..<length xs])"
        by (rule Cons.IH)
      also have "\<dots> = map (\<lambda>i. (x # xs) ! i) (filter ?R [0..<length (x # xs)])"
        unfolding whole f using True by simp
      finally show ?thesis .
    next
      case False
      have f: "filter (\<lambda>i. ?Q seen i \<and> key x \<noteq> key (xs ! i)) [0..<length xs]
            = filter (?Q (key x # seen)) [0..<length xs]"
        by (intro filter_cong) auto
      have "drop_dups_by key seen (filter P (x # xs))
              = x # drop_dups_by key (key x # seen) (filter P xs)"
        using \<open>P x\<close> False by simp
      also have "drop_dups_by key (key x # seen) (filter P xs)
              = map (\<lambda>i. xs ! i) (filter (?Q (key x # seen)) [0..<length xs])"
        by (rule Cons.IH)
      also have "x # \<dots> = map (\<lambda>i. (x # xs) ! i) (filter ?R [0..<length (x # xs)])"
        unfolding whole f using \<open>P x\<close> False by simp
      finally show ?thesis .
    qed
  qed
qed

lemma valid_row_respects_key:
  "dedup_key db x = dedup_key db y \<Longrightarrow> valid_row INVALID x = valid_row INVALID y"
  by (cases "name x"; cases "name y") (auto simp: dedup_key_def valid_row_def)

lemma earlier_keys:
  assumes "i < length xs"
  shows "(\<forall>j<i. key (xs ! j) \<noteq> key (xs ! i)) \<longleftrightarrow> key (xs ! i) \<notin> set (map key (take i xs))"
proof
  assume a: "\<forall>j<i. key (xs ! j) \<noteq> key (xs ! i)"
  show "key (xs ! i) \<notin> set (map key (take i xs))"
  proof
    assume "key (xs ! i) \<in> set (map key (take i xs))"
    then obtain y where y: "y \<in> set (take i xs)" "key y = key (xs ! i)" by auto
    then obtain j where j: "j < length (take i xs)" "take i xs ! j = y"
      by (auto simp: in_set_conv_nth)
    then have "j < i" "xs ! j = y" by auto
    with a y show False by auto
  qed
next
  assume n: "key (xs ! i) \<notin> set (map key (take i xs))"
  show "\<forall>j<i. key (xs ! j) \<noteq> key (xs ! i)"
  proof (intro allI impI)
    fix j assume j: "j < i"
    then have "j < length (take i xs)" "take i xs ! j = xs ! j" using assms by auto
    then have "xs ! j \<in> set (take i xs)" by (metis nth_mem)
    then have "key (xs ! j) \<in> set (map key (take i xs))" by simp
    with n show "key (xs ! j) \<noteq> key (xs ! i)" by metis
  qed
qed

lemma process_duplicate_removal_index:
  "process_duplicate_removal db INVALID data =
     Inr (map (\<lambda>i. normalized_row db (data ! i))
            (filter (first_seen db INVALID data) [0..<length data]))"
proof -
  let ?v = "filter (valid_row INVALID) data"
  define h :: "str \<times> str option \<Rightarrow> str option \<times> str option"
    where "h = (\<lambda>(a, b). (Some a, b))"
  have inj: "inj h" by (auto simp: inj_def h_def)
  have k: "\<forall>x\<in>set ?v. dedup_key db x =
             h (norm_name (normalized_row db x), iban (normalized_row db x))"
    by (auto simp: dedup_key_def normalized_row_def valid_row_def h_def)
  have "remove_duplicates (map (normalized_row db) ?v)
          = map (normalized_row db)
              (drop_dups_by (\<lambda>x. (norm_name (normalized_row db x), iban (normalized_row db x))) [] ?v)"
    by (simp add: remove_duplicates_def drop_dups_by_map)
  also have "\<dots> = map (normalized_row db) (drop_dups_by (dedup_key db) [] ?v)"
    using drop_dups_by_key_inj [OF inj k, of "[]"] by simp
  also have "drop_dups_by (dedup_key db) [] ?v =
               map (\<lambda>i. data ! i) (filter (first_seen db INVALID data) [0..<length data])"
  proof -
    have "filter (first_seen db INVALID data) [0..<length data]
            = filter (\<lambda>i. valid_row INVALID (data ! i) \<and> dedup_key db (data ! i) \<notin> set []
                       \<and> (\<forall>j<i. dedup_key db (data ! j) \<noteq> dedup_key db (data ! i)))
                [0..<length data]"
      by (rule filter_cong) (auto simp: first_seen_def earlier_keys)
    then show ?thesis
      by (simp only: drop_dups_by_filter_index [OF valid_row_respects_key])
  qed
  finally show ?thesis
    by (simp add: process_duplicate_removal_def remove_anomaly_data_filter
        normalize_name_company_valid comp_def)
qed

lemma process_duplicate_removal_eq:
  "process_duplicate_removal db INVALID data =
     Inr (remove_duplicates (map (normalized_row db) (filter (valid_row INVALID) data)))"
  by (simp add: process_duplicate_removal_def remove_anomaly_data_filter
      normalize_name_company_valid)

lemma sorted_filter_upt: "sorted_wrt (<) (filter P [0..<n])"
  by (rule sorted_wrt_filter) simp

lemma normalized_row_fields:
  "name (normalized_row db r) = name r \<and> iban (normalized_row db r) = iban r
   \<and> (name r \<noteq> None \<longrightarrow> Some (norm_name (normalized_row db r)) = map_option (normalize_text db) (name r))"
  by (cases "name r") (auto simp: normalized_row_def)

lemma dedup_example_result:
  "process_duplicate_removal ascii_db (lit ''XX'') dedup_example =
     Inr [\<lparr>name = Some (lit ''Acme Corp''), iban = Some (lit ''DE001''), norm_name = (lit ''acme corp'')\<rparr>,
          \<lparr>name = Some (lit ''acme''), iban = Some (lit ''DE003''), norm_name = (lit ''acme'')\<rparr>]"
  by code_simp

lemma dedup_example_first_seen:
  "filter (first_seen ascii_db (lit ''XX'') dedup_example) [0..<length dedup_example] = [0, 4]"
  by code_simp

text \<open>
  C5. For every input table, \<open>process_duplicate_removal\<close> returns a table (it raises
  nothing) in which no row has a missing name or identifier or the invalid identifier,
  and in which the pairs (normalized name, raw identifier) are pairwise distinct. The
  rows of the result are the input rows at the indices \<open>idx\<close>, in increasing order of
  index, each with its normalized name added; no input row before such an index has
  the same pair, so each survivor is the first occurrence of its pair.
\<close>

theorem process_duplicate_removal_first_occurrences:
  "\<exists>out idx. process_duplicate_removal db INVALID data = Inr out
     \<and> (\<forall>r\<in>set out. name r \<noteq> None \<and> iban r \<noteq> None \<and> iban r \<noteq> Some INVALID)
     \<and> distinct (map (\<lambda>r. (norm_name r, iban r)) out)
     \<and> idx = filter (first_seen db INVALID data) [0..<length data]
     \<and> sorted_wrt (<) idx
     \<and> length out = length idx
     \<and> (\<forall>k<length idx.
           idx ! k < length data
           \<and> name (out ! k) = name (data ! (idx ! k))
           \<and> iban (out ! k) = iban (data ! (idx ! k))
           \<and> Some (norm_name (out ! k)) = map_option (normalize_text db) (name (data ! (idx ! k)))
           \<and> (\<forall>j<idx ! k. dedup_key db (data ! j) \<noteq> dedup_key db (data ! (idx ! k))))"
proof -
  define idx where "idx = filter (first_seen db INVALID data) [0..<length data]"
  define out where "out = map (\<lambda>i. normalized_row db (data ! i)) idx"
  have res: "process_duplicate_removal db INVALID data = Inr out"
    by (simp add: out_def idx_def process_duplicate_removal_index)
  have mem: "\<And>i. i \<in> set idx \<Longrightarrow> i < length data \<and> valid_row INVALID (data ! i)
                 \<and> (\<forall>j<i. dedup_key db (data ! j) \<noteq> dedup_key db (data ! i))"
    by (auto simp: idx_def first_seen_def earlier_keys)
  have 1: "\<forall>r\<in>set out. name r \<noteq> None \<and> iban r \<noteq> None \<and> iban r \<noteq> Some INVALID"
  proof
    fix r assume "r \<in> set out"
    then obtain i where i: "i \<in> set idx" and r: "r = normalized_row db (data ! i)"
      by (auto simp: out_def)
    from mem [OF i] have "valid_row INVALID (data ! i)"
      by simp
    then show "name r \<noteq> None \<and> iban r \<noteq> None \<and> iban r \<noteq> Some INVALID"
      using r normalized_row_fields [of db "data ! i"] by (simp add: valid_row_def)
  qed
  have "out = remove_duplicates (map (normalized_row db) (filter (valid_row INVALID) data))"
    using res by (simp add: process_duplicate_removal_eq)
  then have 2: "distinct (map (\<lambda>r. (norm_name r, iban r)) out)"
    unfolding remove_duplicates_def using drop_dups_by_distinct by blast
  have 3: "sorted_wrt (<) idx"
    unfolding idx_def by (rule sorted_filter_upt)
  have 4: "length out = length idx"
    by (simp add: out_def)
  have 5: "\<forall>k<length idx.
           idx ! k < length data
           \<and> name (out ! k) = name (data ! (idx ! k))
           \<and> iban (out ! k) = iban (data ! (idx ! k))
           \<and> Some (norm_name (out ! k)) = map_option (normalize_text db) (name (data ! (idx ! k)))
           \<and> (\<forall>j<idx ! k. dedup_key db (data ! j) \<noteq> dedup_key db (data ! (idx ! k)))"
  proof (intro allI impI)
    fix k assume k: "k < length idx"
    then have "idx ! k \<in> set idx" by simp
    from mem [OF this] have b: "idx ! k < length data"
      and v: "valid_row INVALID (data ! (idx ! k))"
      and f: "\<forall>j<idx ! k. dedup_key db (data ! j) \<noteq> dedup_key db (data ! (idx ! k))"
      by simp_all
    have o: "out ! k = normalized_row db (data ! (idx ! k))"
      using k by (simp add: out_def)
    from v have "name (data ! (idx ! k)) \<noteq> None" by (simp add: valid_row_def)
    then show "idx ! k < length data
           \<and> name (out ! k) = name (data ! (idx ! k))
           \<and> iban (out ! k) = iban (data ! (idx ! k))
           \<and> Some (norm_name (out ! k)) = map_option (normalize_text db) (name (data ! (idx ! k)))
           \<and> (\<forall>j<idx ! k. dedup_key db (data ! j) \<noteq> dedup_key db (data ! (idx ! k)))"
      using b f o normalized_row_fields [of db "data ! (idx ! k)"] by simp
  qed
  from res 1 2 3 4 5 idx_def show ?thesis by blast
qed

text \<open>
  The filter of C5 on the example input of five rows: the rows at the indices 0 and 4
  survive.
\<close>

theorem process_duplicate_removal_first_occurrences_witness:
  "process_duplicate_removal ascii_db (lit ''XX'') dedup_example =
     Inr [\<lparr>name = Some (lit ''Acme Corp''), iban = Some (lit ''DE001''), norm_name = (lit ''acme corp'')\<rparr>,
          \<lparr>name = Some (lit ''acme''), iban = Some (lit ''DE003''), norm_name = (lit ''acme'')\<rparr>]
   \<and> filter (first_seen ascii_db (lit ''XX'') dedup_example) [0..<length dedup_example] = [0, 4]
   \<and> distinct (map (\<lambda>r. (norm_name r, iban r))
        [\<lparr>name = Some (lit ''Acme Corp''), iban = Some (lit ''DE001''), norm_name = (lit ''acme corp'')\<rparr>,
         \<lparr>name = Some (lit ''acme''), iban = Some (lit ''DE003''), norm_name = (lit ''acme'')\<rparr>])"
proof -
  from process_duplicate_removal_first_occurrences [of ascii_db "lit ''XX''" dedup_example] obtain out idx where
    o: "process_duplicate_removal ascii_db (lit ''XX'') dedup_example = Inr out"
    and d: "distinct (map (\<lambda>r. (norm_name r, iban r)) out)"
    by blast
  from o have "out = [\<lparr>name = Some (lit ''Acme Corp''), iban = Some (lit ''DE001''), norm_name = (lit ''acme corp'')\<rparr>,
          \<lparr>name = Some (lit ''acme''), iban = Some (lit ''DE003''), norm_name = (lit ''acme'')\<rparr>]"
    by (simp add: dedup_example_result)
  with d show ?thesis
    using dedup_example_result dedup_example_first_seen by blast
qed

section \<open>CanonicalKeyBuilder and the match of every row\<close>

lemma unique_set_distinct: "set (unique xs) = set xs \<and> distinct (unique xs)"
proof -
  have s: "\<And>seen. set (drop_dups_by (\<lambda>x. x) seen xs) = set xs - set seen"
  proof (induction xs)
    case Nil
    then show ?case by simp
  next
    case (Cons x xs)
    then show ?case by auto
  qed
  have "distinct (map (\<lambda>x. x) (drop_dups_by (\<lambda>x. x) [] xs))"
    using drop_dups_by_distinct [of "\<lambda>x. x" "[]" xs] by blast
  then show ?thesis using s [of "[]"] by (simp add: unique_def)
qed

lemma get_company_match_total:
  "us \<noteq> [] \<Longrightarrow> \<exists>c. get_company_match db tsr q us = Inr c"
  using get_company_match_first_max [of us tsr q db] by blast

lemma apply_rows_comp: "apply_rows f (map g xs) = apply_rows (\<lambda>x. f (g x)) xs"
  by (induction xs) (simp_all split: sum.splits)

lemma keyed_rows:
  assumes "\<forall>r\<in>set df. iban r \<noteq> None"
  shows "\<exists>d. generate_name_iban_normalized db (remove_terms_name_company db bn df) = Inr d
           \<and> length d = length df
           \<and> (\<forall>k<length df. \<exists>x. iban (df ! k) = Some x
                 \<and> name (d ! k) = name (df ! k) \<and> iban (d ! k) = iban (df ! k)
                 \<and> norm_name_iban (d ! k) = norm_name (df ! k) @ [space] @ x
                 \<and> not_business_terms_name_norm_iban (d ! k) =
                     remove_business_terms db bn (norm_name (df ! k)) @ [space]
                       @ remove_last_digits_iban db x)"
proof -
  define K where "K = (\<lambda>r :: norm_row.
       \<lparr>name = name r, iban = iban r, norm_name = norm_name r,
        not_business_terms_name = remove_business_terms db bn (norm_name r),
        norm_iban = remove_last_digits_iban db (the (iban r)),
        norm_name_iban = norm_name r @ [space] @ the (iban r),
        not_business_terms_name_norm_iban =
          remove_business_terms db bn (norm_name r) @ [space]
            @ remove_last_digits_iban db (the (iban r))\<rparr>)"
  have d: "generate_name_iban_normalized db (remove_terms_name_company db bn df)
             = Inr (map K df)"
    unfolding generate_name_iban_normalized_def remove_terms_name_company_def apply_rows_comp
    by (rule apply_rows_map) (use assms in \<open>auto simp: K_def\<close>)
  have "\<forall>k<length df. \<exists>x. iban (df ! k) = Some x
                 \<and> name (map K df ! k) = name (df ! k) \<and> iban (map K df ! k) = iban (df ! k)
                 \<and> norm_name_iban (map K df ! k) = norm_name (df ! k) @ [space] @ x
                 \<and> not_business_terms_name_norm_iban (map K df ! k) =
                     remove_business_terms db bn (norm_name (df ! k)) @ [space]
                       @ remove_last_digits_iban db x"
  proof (intro allI impI)
    fix k assume k: "k < length df"
    then have "iban (df ! k) \<noteq> None" using assms by simp
    then obtain x where "iban (df ! k) = Some x" by auto
    then show "\<exists>x. iban (df ! k) = Some x
                 \<and> name (map K df ! k) = name (df ! k) \<and> iban (map K df ! k) = iban (df ! k)
                 \<and> norm_name_iban (map K df ! k) = norm_name (df ! k) @ [space] @ x
                 \<and> not_business_terms_name_norm_iban (map K df ! k) =
                     remove_business_terms db bn (norm_name (df ! k)) @ [space]
                       @ remove_last_digits_iban db x"
      using k by (simp add: K_def)
  qed
  with d show ?thesis by (intro exI [of _ "map K df"]) simp
qed

lemma matched_rows:
  assumes "d = [] \<or> us \<noteq> []"
  shows "\<exists>m. generate_company_match db tsr d us = Inr m \<and> length m = length d
           \<and> (\<forall>k<length d. name (m ! k) = name (d ! k) \<and> iban (m ! k) = iban (d ! k)
                 \<and> get_company_match db tsr (norm_name_iban (d ! k)) us
                     = Inr (company (m ! k)))"
proof -
  define c where "c = (\<lambda>r :: keyed_row.
      case get_company_match db tsr (norm_name_iban r) us of Inl e \<Rightarrow> [] | Inr x \<Rightarrow> x)"
  define M where "M = (\<lambda>r :: keyed_row.
       \<lparr>name = name r, iban = iban r, norm_name = norm_name r,
        not_business_terms_name = not_business_terms_name r,
        norm_iban = norm_iban r, norm_name_iban = norm_name_iban r,
        not_business_terms_name_norm_iban = not_business_terms_name_norm_iban r,
        company = c r\<rparr>)"
  have g: "\<And>r. r \<in> set d \<Longrightarrow> get_company_match db tsr (norm_name_iban r) us = Inr (c r)"
  proof -
    fix r assume "r \<in> set d"
    then have "us \<noteq> []" using assms by auto
    from get_company_match_total [OF this, of db tsr "norm_name_iban r"]
    show "get_company_match db tsr (norm_name_iban r) us = Inr (c r)"
      by (auto simp: c_def)
  qed
  have "generate_company_match db tsr d us = Inr (map M d)"
    unfolding generate_company_match_def
    by (rule apply_rows_map) (simp add: g M_def)
  moreover have "\<forall>k<length d. name (map M d ! k) = name (d ! k)
                 \<and> iban (map M d ! k) = iban (d ! k)
                 \<and> get_company_match db tsr (norm_name_iban (d ! k)) us
                     = Inr (company (map M d ! k))"
    using g by (simp add: M_def)
  ultimately show ?thesis by (intro exI [of _ "map M d"]) simp
qed

text \<open>The rows of a table whose IBAN cells are present, keyed and matched.\<close>

lemma match_rows_total:
  assumes "\<forall>r\<in>set dataframe. iban r \<noteq> None"
  shows "\<exists>d m. generate_name_iban_normalized db (remove_terms_name_company db bn dataframe)
                 = Inr d
           \<and> match_rows db bn tsr dataframe = Inr m
           \<and> length d = length dataframe \<and> length m = length dataframe
           \<and> set (get_uniques_name_plus_iban d) = set (map not_business_terms_name_norm_iban d)
           \<and> distinct (get_uniques_name_plus_iban d)
           \<and> (\<forall>k<length dataframe. \<exists>x. iban (dataframe ! k) = Some x
                 \<and> name (m ! k) = name (dataframe ! k) \<and> iban (m ! k) = iban (dataframe ! k)
                 \<and> norm_name_iban (d ! k) = norm_name (dataframe ! k) @ [space] @ x
                 \<and> not_business_terms_name_norm_iban (d ! k) =
                     remove_business_terms db bn (norm_name (dataframe ! k)) @ [space]
                       @ remove_last_digits_iban db x
                 \<and> get_company_match db tsr (norm_name_iban (d ! k))
                       (get_uniques_name_plus_iban d)
                     = Inr (company (m ! k)))"
proof -
  from keyed_rows [OF assms, of db bn] obtain d where
    d: "generate_name_iban_normalized db (remove_terms_name_company db bn dataframe) = Inr d"
    and ld: "length d = length dataframe"
    and kd: "\<forall>k<length dataframe. \<exists>x. iban (dataframe ! k) = Some x
                 \<and> name (d ! k) = name (dataframe ! k) \<and> iban (d ! k) = iban (dataframe ! k)
                 \<and> norm_name_iban (d ! k) = norm_name (dataframe ! k) @ [space] @ x
                 \<and> not_business_terms_name_norm_iban (d ! k) =
                     remove_business_terms db bn (norm_name (dataframe ! k)) @ [space]
                       @ remove_last_digits_iban db x"
    by blast
  let ?U = "get_uniques_name_plus_iban d"
  have u: "set ?U = set (map not_business_terms_name_norm_iban d)" "distinct ?U"
    using unique_set_distinct [of "map not_business_terms_name_norm_iban d"]
    by (simp_all add: get_uniques_name_plus_iban_def)
  then have "d = [] \<or> ?U \<noteq> []" by (cases d) auto
  from matched_rows [OF this, of db tsr] obtain m where
    m: "generate_company_match db tsr d ?U = Inr m" and lm: "length m = length d"
    and km: "\<forall>k<length d. name (m ! k) = name (d ! k) \<and> iban (m ! k) = iban (d ! k)
                 \<and> get_company_match db tsr (norm_name_iban (d ! k)) ?U
                     = Inr (company (m ! k))"
    by blast
  have mr: "match_rows db bn tsr dataframe = Inr m"
    by (simp add: match_rows_def d m)
  have "\<forall>k<length dataframe. \<exists>x. iban (dataframe ! k) = Some x
                 \<and> name (m ! k) = name (dataframe ! k) \<and> iban (m ! k) = iban (dataframe ! k)
                 \<and> norm_name_iban (d ! k) = norm_name (dataframe ! k) @ [space] @ x
                 \<and> not_business_terms_name_norm_iban (d ! k) =
                     remove_business_terms db bn (norm_name (dataframe ! k)) @ [space]
                       @ remove_last_digits_iban db x
                 \<and> get_company_match db tsr (norm_name_iban (d ! k)) ?U = Inr (company (m ! k))"
  proof (intro allI impI)
    fix k assume k: "k < length dataframe"
    with kd obtain x where x: "iban (dataframe ! k) = Some x"
      "name (d ! k) = name (dataframe ! k)" "iban (d ! k) = iban (dataframe ! k)"
      "norm_name_iban (d ! k) = norm_name (dataframe ! k) @ [space] @ x"
      "not_business_terms_name_norm_iban (d ! k) =
         remove_business_terms db bn (norm_name (dataframe ! k)) @ [space]
           @ remove_last_digits_iban db x"
      by blast
    from km k ld have "name (m ! k) = name (d ! k)" "iban (m ! k) = iban (d ! k)"
      "get_company_match db tsr (norm_name_iban (d ! k)) ?U = Inr (company (m ! k))"
      by simp_all
    with x show "\<exists>x. iban (dataframe ! k) = Some x
                 \<and> name (m ! k) = name (dataframe ! k) \<and> iban (m ! k) = iban (dataframe ! k)
                 \<and> norm_name_iban (d ! k) = norm_name (dataframe ! k) @ [space] @ x
                 \<and> not_business_terms_name_norm_iban (d ! k) =
                     remove_business_terms db bn (norm_name (dataframe ! k)) @ [space]
                       @ remove_last_digits_iban db x
                 \<and> get_company_match db tsr (norm_name_iban (d ! k)) ?U = Inr (company (m ! k))"
      by simp
  qed
  with d mr ld lm u show ?thesis by (intro exI [of _ d] exI [of _ m]) simp
qed

text \<open>
  C1 as the specification states it fails. For the three deduplicated Acme rows the
  universe passed to \<open>get_company_match\<close> is the single candidate key \<open>"acme DE0"\<close>
  (name without business terms, truncated identifier), not the set of the full keys
  (normalized name, raw identifier), which are the strings of the column that is scored.
\<close>

theorem canonical_universe_counterexample:
  "map_sum id get_uniques_name_plus_iban
     (generate_name_iban_normalized ascii_db
        (remove_terms_name_company ascii_db bn_example acme_dedup))
     = Inr [lit ''acme DE0'']
   \<and> map_sum id (map norm_name_iban)
     (generate_name_iban_normalized ascii_db
        (remove_terms_name_company ascii_db bn_example acme_dedup))
     = Inr [lit ''acme corp DE001'', lit ''acme gmbh DE002'', lit ''acme DE003'']
   \<and> set [lit ''acme DE0'']
       \<noteq> set [lit ''acme corp DE001'', lit ''acme gmbh DE002'', lit ''acme DE003'']"
  by code_simp

text \<open>
  C1 (amended). For every deduplicated dataset (every table whose IBAN cells are
  present), the stage raises nothing; the canonical universe passed to
  \<open>get_company_match\<close> is the list of the distinct candidate keys of the records
  (name without business terms, a space, the truncated identifier); and for every
  record the string scored against that universe is the record's full key (normalized
  name, a space, the raw identifier), the result being the record's company.
\<close>

theorem match_rows_universe_and_query:
  assumes "\<forall>r\<in>set dataframe. iban r \<noteq> None"
  shows "\<exists>d m. generate_name_iban_normalized db (remove_terms_name_company db bn dataframe)
                 = Inr d
           \<and> match_rows db bn tsr dataframe = Inr m
           \<and> length d = length dataframe \<and> length m = length dataframe
           \<and> set (get_uniques_name_plus_iban d) = set (map not_business_terms_name_norm_iban d)
           \<and> distinct (get_uniques_name_plus_iban d)
           \<and> (\<forall>k<length dataframe. \<exists>x. iban (dataframe ! k) = Some x
                 \<and> norm_name_iban (d ! k) = norm_name (dataframe ! k) @ [space] @ x
                 \<and> not_business_terms_name_norm_iban (d ! k) =
                     remove_business_terms db bn (norm_name (dataframe ! k)) @ [space]
                       @ remove_last_digits_iban db x
                 \<and> get_company_match db tsr (norm_name_iban (d ! k))
                       (get_uniques_name_plus_iban d)
                     = Inr (company (m ! k)))"
proof -
  from match_rows_total [OF assms, of db bn tsr] obtain d m where
    t: "generate_name_iban_normalized db (remove_terms_name_company db bn dataframe) = Inr d"
      "match_rows db bn tsr dataframe = Inr m"
      "length d = length dataframe" "length m = length dataframe"
      "set (get_uniques_name_plus_iban d) = set (map not_business_terms_name_norm_iban d)"
      "distinct (get_uniques_name_plus_iban d)"
    and k: "\<forall>k<length dataframe. \<exists>x. iban (dataframe ! k) = Some x
                 \<and> name (m ! k) = name (dataframe ! k) \<and> iban (m ! k) = iban (dataframe ! k)
                 \<and> norm_name_iban (d ! k) = norm_name (dataframe ! k) @ [space] @ x
                 \<and> not_business_terms_name_norm_iban (d ! k) =
                     remove_business_terms db bn (norm_name (dataframe ! k)) @ [space]
                       @ remove_last_digits_iban db x
                 \<and> get_company_match db tsr (norm_name_iban (d ! k))
                       (get_uniques_name_plus_iban d)
                     = Inr (company (m ! k))"
    by (elim exE conjE)
  have "\<forall>k<length dataframe. \<exists>x. iban (dataframe ! k) = Some x
                 \<and> norm_name_iban (d ! k) = norm_name (dataframe ! k) @ [space] @ x
                 \<and> not_business_terms_name_norm_iban (d ! k) =
                     remove_business_terms db bn (norm_name (dataframe ! k)) @ [space]
                       @ remove_last_digits_iban db x
                 \<and> get_company_match db tsr (norm_name_iban (d ! k))
                       (get_uniques_name_plus_iban d)
                     = Inr (company (m ! k))"
    using k by blast
  with t show ?thesis by (intro exI [of _ d] exI [of _ m]) simp
qed

text \<open>
  The property of C1 for the three deduplicated Acme rows, whose IBAN cells are
  present.
\<close>

theorem match_rows_universe_and_query_witness:
  "list_all (\<lambda>r. iban r \<noteq> None) acme_dedup
   \<and> (\<exists>d m. generate_name_iban_normalized ascii_db
               (remove_terms_name_company ascii_db bn_example acme_dedup) = Inr d
         \<and> match_rows ascii_db bn_example (\<lambda>u q. 0) acme_dedup = Inr m
         \<and> length d = length acme_dedup \<and> length m = length acme_dedup
         \<and> set (get_uniques_name_plus_iban d) = set (map not_business_terms_name_norm_iban d)
         \<and> distinct (get_uniques_name_plus_iban d))"
proof -
  have h: "\<forall>r\<in>set acme_dedup. iban r \<noteq> None"
    by (simp add: acme_dedup_def)
  from match_rows_universe_and_query [OF h, of ascii_db bn_example "\<lambda>u q. 0"]
  have "\<exists>d m. generate_name_iban_normalized ascii_db
               (remove_terms_name_company ascii_db bn_example acme_dedup) = Inr d
         \<and> match_rows ascii_db bn_example (\<lambda>u q. 0) acme_dedup = Inr m
         \<and> length d = length acme_dedup \<and> length m = length acme_dedup
         \<and> set (get_uniques_name_plus_iban d) = set (map not_business_terms_name_norm_iban d)
         \<and> distinct (get_uniques_name_plus_iban d)"
    by blast
  moreover have "list_all (\<lambda>r. iban r \<noteq> None) acme_dedup"
    using h by (simp only: list_all_iff)
  ultimately show ?thesis by blast
qed

section \<open>ASCII strings under any database\<close>

lemma ascii_subset: "ascii s \<Longrightarrow> set t \<subseteq> set s \<Longrightarrow> ascii t"
  by (auto simp: ascii_def)

lemma ascii_isspace:
  "ascii s \<Longrightarrow> \<forall>c\<in>set s. isspace db c = isspace ascii_db c"
  by (simp add: isspace_def ascii_def)

lemma lower_agree:
  assumes "ascii s"
  shows "lower db s = lower ascii_db s"
proof -
  have "\<forall>i\<in>set [0..<length s]. lower_at db s i = lower_at ascii_db s i"
  proof
    fix i assume "i \<in> set [0..<length s]"
    then have "s ! i < 128" using assms by (simp add: ascii_def)
    then show "lower_at db s i = lower_at ascii_db s i"
      by (simp add: lower_at_def lower_full_def)
  qed
  then have "map (lower_at db s) [0..<length s] = map (lower_at ascii_db s) [0..<length s]"
    by (intro map_cong refl) blast
  then show ?thesis by (simp only: lower_def)
qed

lemma lower_ascii:
  assumes "ascii s"
  shows "ascii (lower ascii_db s)"
proof -
  have "\<And>i. i < length s \<Longrightarrow> \<forall>c\<in>set (lower_at ascii_db s i). c < 128"
  proof -
    fix i assume "i < length s"
    then have "s ! i < 128" using assms by (simp add: ascii_def)
    then show "\<forall>c\<in>set (lower_at ascii_db s i). c < 128"
      by (simp add: lower_at_def lower_full_def)
  qed
  then show ?thesis by (auto simp: ascii_def lower_def)
qed

lemma capitalize_agree:
  assumes "ascii s"
  shows "capitalize db s = capitalize ascii_db s"
proof (cases "s = []")
  case True
  then show ?thesis by (simp add: capitalize_def)
next
  case False
  then have "s ! 0 < 128" using assms by (simp add: ascii_def)
  then have t: "title_full db (s ! 0) = title_full ascii_db (s ! 0)"
    by (simp add: title_full_def)
  have "\<forall>i\<in>set [1..<length s]. lower_at db s i = lower_at ascii_db s i"
  proof
    fix i assume "i \<in> set [1..<length s]"
    then have "s ! i < 128" using assms by (simp add: ascii_def)
    then show "lower_at db s i = lower_at ascii_db s i"
      by (simp add: lower_at_def lower_full_def)
  qed
  then have "map (lower_at db s) [1..<length s] = map (lower_at ascii_db s) [1..<length s]"
    by (intro map_cong refl) blast
  then show ?thesis using False by (simp only: capitalize_def t if_False)
qed

lemma dropWhile_agree:
  "\<forall>c\<in>set s. P c = Q c \<Longrightarrow> dropWhile P s = dropWhile Q s"
  by (induction s) auto

lemma takeWhile_agree:
  "\<forall>c\<in>set s. P c = Q c \<Longrightarrow> takeWhile P s = takeWhile Q s"
  by (induction s) auto

lemma strip_agree:
  assumes "ascii s"
  shows "strip db s = strip ascii_db s"
proof -
  note e = ascii_isspace [OF assms, of db]
  have 1: "dropWhile (isspace db) s = dropWhile (isspace ascii_db) s"
    by (rule dropWhile_agree [OF e])
  have "\<forall>c\<in>set (rev (dropWhile (isspace ascii_db) s)). isspace db c = isspace ascii_db c"
    using e by (auto dest: set_dropWhileD)
  then have 2: "dropWhile (isspace db) (rev (dropWhile (isspace ascii_db) s))
                  = dropWhile (isspace ascii_db) (rev (dropWhile (isspace ascii_db) s))"
    by (rule dropWhile_agree)
  show ?thesis by (simp add: strip_def 1 2)
qed

lemma normalize_text_agree:
  assumes "ascii s"
  shows "normalize_text db s = normalize_text ascii_db s"
proof -
  let ?l = "lower ascii_db s"
  have l: "lower db s = ?l" by (rule lower_agree [OF assms])
  have al: "ascii ?l" by (rule lower_ascii [OF assms])
  have "\<forall>c\<in>set ?l. (isword db c \<or> isspace db c) = (isword ascii_db c \<or> isspace ascii_db c)"
    using al by (simp add: ascii_def isspace_def isword_def)
  then have f: "re_sub_not_word_space db ?l = re_sub_not_word_space ascii_db ?l"
    unfolding re_sub_not_word_space_def by (intro filter_cong refl) simp
  have "ascii (re_sub_not_word_space ascii_db ?l)"
    by (rule ascii_subset [OF al]) (simp add: re_sub_not_word_space_def)
  then have "strip db (re_sub_not_word_space ascii_db ?l)
               = strip ascii_db (re_sub_not_word_space ascii_db ?l)"
    by (rule strip_agree)
  then show ?thesis by (simp add: normalize_text_def l f)
qed

lemma remove_last_digits_iban_agree:
  assumes "ascii s"
  shows "remove_last_digits_iban db s = remove_last_digits_iban ascii_db s"
proof -
  have "ascii (drop_last_two (re_sub_spaces [] s))"
    by (rule ascii_subset [OF assms])
       (auto simp: drop_last_two_def re_sub_spaces_Nil dest: in_set_takeD)
  then show ?thesis
    unfolding remove_last_digits_iban_def by (rule strip_agree)
qed

lemma split_agree:
  shows "ascii s \<Longrightarrow> split db s = split ascii_db s"
proof (induction ascii_db s rule: split.induct)
  case (1 s)
  note e = ascii_isspace [OF 1(2), of db]
  have d: "dropWhile (isspace db) s = dropWhile (isspace ascii_db) s"
    by (rule dropWhile_agree [OF e])
  have u1: "split db s =
     (case dropWhile (isspace ascii_db) s of
        [] \<Rightarrow> []
      | c # cs \<Rightarrow> (c # takeWhile (\<lambda>x. \<not> isspace db x) cs)
                  # split db (dropWhile (\<lambda>x. \<not> isspace db x) cs))"
    by (subst split.simps) (simp only: d)
  have u2: "split ascii_db s =
     (case dropWhile (isspace ascii_db) s of
        [] \<Rightarrow> []
      | c # cs \<Rightarrow> (c # takeWhile (\<lambda>x. \<not> isspace ascii_db x) cs)
                  # split ascii_db (dropWhile (\<lambda>x. \<not> isspace ascii_db x) cs))"
    by (rule split.simps)
  show ?case
  proof (cases "dropWhile (isspace ascii_db) s")
    case Nil
    show ?thesis by (simp only: u1 u2 Nil list.case)
  next
    case (Cons c cs)
    have sub: "set cs \<subseteq> set s"
      using Cons set_dropWhileD [of _ "isspace ascii_db" s] by (metis list.set_intros(2) subsetI)
    then have ecs: "\<forall>x\<in>set cs. (\<not> isspace db x) = (\<not> isspace ascii_db x)"
      using e by auto
    have t: "takeWhile (\<lambda>x. \<not> isspace db x) cs = takeWhile (\<lambda>x. \<not> isspace ascii_db x) cs"
      by (rule takeWhile_agree [OF ecs])
    have r: "dropWhile (\<lambda>x. \<not> isspace db x) cs = dropWhile (\<lambda>x. \<not> isspace ascii_db x) cs"
      by (rule dropWhile_agree [OF ecs])
    have "set (dropWhile (\<lambda>x. \<not> isspace ascii_db x) cs) \<subseteq> set s"
      using sub set_dropWhileD [of _ "\<lambda>x. \<not> isspace ascii_db x" cs] by blast
    then have "ascii (dropWhile (\<lambda>x. \<not> isspace ascii_db x) cs)"
      by (rule ascii_subset [OF 1(2)])
    from 1(1) [OF Cons this]
    have ih: "split db (dropWhile (\<lambda>x. \<not> isspace ascii_db x) cs)
                = split ascii_db (dropWhile (\<lambda>x. \<not> isspace ascii_db x) cs)" .
    show ?thesis by (simp only: u1 u2 Cons list.case t r ih)
  qed
qed

section \<open>The scenario of the three Acme rows\<close>

lemma apply_rows_cong:
  "\<forall>x\<in>set xs. f x = g x \<Longrightarrow> apply_rows f xs = apply_rows g xs"
  by (induction xs) (simp_all split: sum.splits)

lemma process_duplicate_removal_agree:
  assumes "\<forall>r\<in>set data. \<forall>x. name r = Some x \<longrightarrow> ascii x"
  shows "process_duplicate_removal db INVALID data
           = process_duplicate_removal ascii_db INVALID data"
proof -
  have "normalize_name_company db (remove_anomaly_data INVALID data)
          = normalize_name_company ascii_db (remove_anomaly_data INVALID data)"
    unfolding normalize_name_company_def
  proof (rule apply_rows_cong, rule ballI)
    fix r assume "r \<in> set (remove_anomaly_data INVALID data)"
    then have "r \<in> set data" by (simp add: remove_anomaly_data_def)
    then show "(case name r of None \<Rightarrow> Inl AttributeError
                | Some x \<Rightarrow> Inr \<lparr>name = name r, iban = iban r,
                                 norm_name = normalize_text db x\<rparr>)
             = (case name r of None \<Rightarrow> Inl AttributeError
                | Some x \<Rightarrow> Inr \<lparr>name = name r, iban = iban r,
                                 norm_name = normalize_text ascii_db x\<rparr>)"
      using assms by (cases "name r") (simp_all add: normalize_text_agree [where db = db])
  qed
  then show ?thesis by (simp add: process_duplicate_removal_def)
qed

lemma acme_dedup_ascii:
  "process_duplicate_removal ascii_db (lit ''XX'') acme_rows = Inr acme_dedup"
  by code_simp

lemma acme_dedup_result:
  "process_duplicate_removal db (lit ''XX'') acme_rows = Inr acme_dedup"
proof -
  have "\<forall>r\<in>set acme_rows. \<forall>x. name r = Some x \<longrightarrow> ascii x"
    by (simp add: acme_rows_def ascii_def lit_def)
  from process_duplicate_removal_agree [OF this, where db = db and INVALID = "lit ''XX''"] show ?thesis
    by (simp only: acme_dedup_ascii)
qed

lemma acme_strip_ascii: "re_sub_spaces [space] (strip ascii_db (lit ''acme'')) = lit ''acme''"
  by code_simp

lemma acme_strip:
  "re_sub_spaces [space] (strip db (lit ''acme'')) = lit ''acme''"
proof -
  have "ascii (lit ''acme'')" by (simp add: ascii_def lit_def)
  from strip_agree [OF this, where db = db] show ?thesis by (simp only: acme_strip_ascii)
qed

lemma acme_truncated_ascii:
  "remove_last_digits_iban ascii_db (lit ''DE001'') = lit ''DE0''"
  "remove_last_digits_iban ascii_db (lit ''DE002'') = lit ''DE0''"
  "remove_last_digits_iban ascii_db (lit ''DE003'') = lit ''DE0''"
  by code_simp+

lemma acme_truncated:
  "remove_last_digits_iban db (lit ''DE001'') = lit ''DE0''"
    "remove_last_digits_iban db (lit ''DE002'') = lit ''DE0''"
    "remove_last_digits_iban db (lit ''DE003'') = lit ''DE0''"
proof -
  have a: "ascii (lit ''DE001'')" "ascii (lit ''DE002'')" "ascii (lit ''DE003'')"
    by (simp_all add: ascii_def lit_def)
  show "remove_last_digits_iban db (lit ''DE001'') = lit ''DE0''"
    by (simp only: remove_last_digits_iban_agree [OF a(1), where db = db] acme_truncated_ascii)
  show "remove_last_digits_iban db (lit ''DE002'') = lit ''DE0''"
    by (simp only: remove_last_digits_iban_agree [OF a(2), where db = db] acme_truncated_ascii)
  show "remove_last_digits_iban db (lit ''DE003'') = lit ''DE0''"
    by (simp only: remove_last_digits_iban_agree [OF a(3), where db = db] acme_truncated_ascii)
qed

lemma acme_tokens_ascii:
  "join [space] (butlast (split ascii_db (lit ''acme DE0''))) = lit ''acme''"
  "capitalize ascii_db (lit ''acme'') = lit ''Acme''"
  by code_simp+

lemma acme_display:
  "capitalize db (join [space] (butlast (split db (lit ''acme DE0'')))) = lit ''Acme''"
proof -
  have a: "ascii (lit ''acme DE0'')" "ascii (lit ''acme'')"
    by (simp_all add: ascii_def lit_def)
  show ?thesis
    by (simp only: split_agree [OF a(1), where db = db] acme_tokens_ascii
        capitalize_agree [OF a(2), where db = db])
qed

lemma acme_key: "lit ''acme'' @ space # lit ''DE0'' = lit ''acme DE0''"
  by (simp add: lit_def)

lemma acme_match:
  "get_company_match db tsr q [lit ''acme DE0''] = Inr (lit ''Acme'')"
  by (simp add: get_company_match_def acme_display)

lemma acme_match_rows:
  assumes "bn (lit ''acme corp'') = lit ''acme''" "bn (lit ''acme gmbh'') = lit ''acme''"
    and "bn (lit ''acme'') = lit ''acme''"
  shows "\<exists>m. match_rows db bn tsr acme_dedup = Inr m
           \<and> map company m = [lit ''Acme'', lit ''Acme'', lit ''Acme'']
           \<and> map name m = [Some (lit ''Acme Corp''), Some (lit ''ACME GMBH''), Some (lit ''acme'')]
           \<and> map iban m = [Some (lit ''DE001''), Some (lit ''DE002''), Some (lit ''DE003'')]"
  using assms
  by (simp add: match_rows_def acme_dedup_def remove_terms_name_company_def
      remove_business_terms_def generate_name_iban_normalized_def acme_strip
      acme_truncated acme_key
      get_uniques_name_plus_iban_def unique_def generate_company_match_def
      acme_match)

lemma acme_group:
  assumes "map company m = [lit ''Acme'', lit ''Acme'', lit ''Acme'']"
    "map name m = [Some (lit ''Acme Corp''), Some (lit ''ACME GMBH''), Some (lit ''acme'')]"
    "map iban m = [Some (lit ''DE001''), Some (lit ''DE002''), Some (lit ''DE003'')]"
  shows "generate_group_by_company m = [acme_entity]"
proof -
  have f: "filter (\<lambda>r. company r = lit ''Acme'') m = m"
  proof -
    have "\<forall>c\<in>set (map company m). c = lit ''Acme''" by (simp add: assms(1))
    then show ?thesis by (auto simp: filter_id_conv)
  qed
  have "set (map name m) = {Some (lit ''Acme Corp''), Some (lit ''ACME GMBH''), Some (lit ''acme'')}"
    "set (map iban m) = {Some (lit ''DE001''), Some (lit ''DE002''), Some (lit ''DE003'')}"
    by (simp_all only: assms list.set)+
  then show ?thesis
    by (simp add: generate_group_by_company_def groupby_company_def assms(1) f acme_entity_def)
qed

text \<open>
  C4. For the input rows \<open>("Acme Corp", "DE001")\<close>, \<open>("ACME GMBH", "DE002")\<close>,
  \<open>("acme", "DE003")\<close> with the invalid value \<open>"XX"\<close>, for every scoring function,
  every \<open>basename\<close> that maps \<open>"acme corp"\<close>, \<open>"acme gmbh"\<close> and \<open>"acme"\<close> to
  \<open>"acme"\<close>, and every character database: the deduplication stage followed by the
  entity-resolution stage gives all three rows the company \<open>"Acme"\<close>, and the
  aggregated output is exactly one entity, whose observed identifiers are \<open>DE001\<close>,
  \<open>DE002\<close> and \<open>DE003\<close>.
\<close>

theorem acme_scenario:
  assumes "bn (lit ''acme corp'') = lit ''acme''" "bn (lit ''acme gmbh'') = lit ''acme''"
    and "bn (lit ''acme'') = lit ''acme''"
  shows "\<exists>d m. process_duplicate_removal db (lit ''XX'') acme_rows = Inr d
           \<and> match_rows db bn tsr d = Inr m
           \<and> map company m = [lit ''Acme'', lit ''Acme'', lit ''Acme'']
           \<and> process_entity_resolution db bn tsr d = Inr [acme_entity]
           \<and> run_pipeline db (lit ''XX'') bn tsr acme_rows = Inr [acme_entity]"
proof -
  from acme_match_rows [OF assms, where db = db and tsr = tsr] obtain m where
    mm: "match_rows db bn tsr acme_dedup = Inr m
           \<and> map company m = [lit ''Acme'', lit ''Acme'', lit ''Acme'']
           \<and> map name m = [Some (lit ''Acme Corp''), Some (lit ''ACME GMBH''), Some (lit ''acme'')]
           \<and> map iban m = [Some (lit ''DE001''), Some (lit ''DE002''), Some (lit ''DE003'')]"
    by (rule exE)
  note m = mm [THEN conjunct1]
    and c = mm [THEN conjunct2, THEN conjunct1]
    and n = mm [THEN conjunct2, THEN conjunct2, THEN conjunct1]
    and i = mm [THEN conjunct2, THEN conjunct2, THEN conjunct2]
  note dd = acme_dedup_result [of db]
  have g: "generate_group_by_company m = [acme_entity]"
    by (rule acme_group [OF c n i])
  have p: "process_entity_resolution db bn tsr acme_dedup = Inr [acme_entity]"
    by (simp only: process_entity_resolution_def m g sum.case)
  have r: "run_pipeline db (lit ''XX'') bn tsr acme_rows = Inr [acme_entity]"
    by (simp only: run_pipeline_def dd p sum.case)
  show ?thesis
    by (intro exI [of _ acme_dedup] exI [of _ m] conjI dd m c p r)
qed

lemma bn_example_acme:
  "bn_example (lit ''acme corp'') = lit ''acme''"
  "bn_example (lit ''acme gmbh'') = lit ''acme''"
  "bn_example (lit ''acme'') = lit ''acme''"
  by code_simp+

text \<open>
  The scenario of C4 with the ASCII database and the stand-in for \<open>basename\<close> over the
  lexicon of \<open>corp\<close> and \<open>gmbh\<close>, which satisfies the three assumptions.
\<close>

theorem acme_scenario_witness:
  "bn_example (lit ''acme corp'') = lit ''acme''
   \<and> bn_example (lit ''acme gmbh'') = lit ''acme''
   \<and> bn_example (lit ''acme'') = lit ''acme''
   \<and> run_pipeline ascii_db (lit ''XX'') bn_example (\<lambda>u q. 0) acme_rows = Inr [acme_entity]"
proof -
  from acme_scenario [OF bn_example_acme, where db = ascii_db and tsr = "\<lambda>u q. 0"] obtain d m where
    t: "process_duplicate_removal ascii_db (lit ''XX'') acme_rows = Inr d
           \<and> match_rows ascii_db bn_example (\<lambda>u q. 0) d = Inr m
           \<and> map company m = [lit ''Acme'', lit ''Acme'', lit ''Acme'']
           \<and> process_entity_resolution ascii_db bn_example (\<lambda>u q. 0) d = Inr [acme_entity]
           \<and> run_pipeline ascii_db (lit ''XX'') bn_example (\<lambda>u q. 0) acme_rows
                 = Inr [acme_entity]"
    by (elim exE)
  show ?thesis
    by (intro conjI bn_example_acme
        t [THEN conjunct2, THEN conjunct2, THEN conjunct2, THEN conjunct2])
qed

section \<open>Empty display names\<close>

lemma split_Nil: "split db [] = []"
  by (simp add: split.simps)

lemma split_space_token:
  assumes "\<forall>c\<in>set t. \<not> isspace db c"
  shows "split db ([space] @ t) = (if t = [] then [] else [t])"
proof (cases t)
  case Nil
  then show ?thesis by (simp add: split.simps space_isspace)
next
  case (Cons c cs)
  have 1: "dropWhile (isspace db) ([space] @ t) = c # cs"
    using assms Cons by (simp add: space_isspace)
  have 2: "takeWhile (\<lambda>x. \<not> isspace db x) cs = cs"
    using assms Cons by (simp add: takeWhile_eq_all_conv)
  have 3: "dropWhile (\<lambda>x. \<not> isspace db x) cs = []"
    using assms Cons by simp
  have "split db ([space] @ t) = (c # takeWhile (\<lambda>x. \<not> isspace db x) cs)
                  # split db (dropWhile (\<lambda>x. \<not> isspace db x) cs)"
    by (subst split.simps) (simp only: 1 list.case)
  then show ?thesis using Cons by (simp only: 2 3 split_Nil) simp
qed

lemma display_name_one_token:
  "length ts \<le> 1 \<Longrightarrow> capitalize db (join [space] (butlast ts)) = []"
  by (cases ts) (auto simp: capitalize_def)

lemma split_key_only: "split ascii_db (lit '' DE0'') = [lit ''DE0'']"
  by code_simp

lemma gmbh_dedup_result:
  "process_duplicate_removal ascii_db (lit ''XX'') gmbh_rows = Inr gmbh_dedup"
  by code_simp

lemma gmbh_match_rows:
  "match_rows ascii_db bn_example (\<lambda>u q. 0) gmbh_dedup =
     Inr [\<lparr>name = Some (lit ''GmbH''), iban = Some (lit ''DE002''), norm_name = lit ''gmbh'',
           not_business_terms_name = [], norm_iban = lit ''DE0'',
           norm_name_iban = lit ''gmbh DE002'',
           not_business_terms_name_norm_iban = lit '' DE0'', company = []\<rparr>]"
  by code_simp

lemma gmbh_resolution:
  "process_entity_resolution ascii_db bn_example (\<lambda>u q. 0) gmbh_dedup = Inr [gmbh_entity]"
  by (simp add: process_entity_resolution_def gmbh_match_rows generate_group_by_company_def
      groupby_company_def gmbh_entity_def)

text \<open>
  C10 as the specification states it fails: a candidate key made of an empty name and
  the truncated identifier can have two tokens. The identifier \<open>DE<tab>00123\<close> is
  truncated to \<open>DE<tab>001\<close>; the key of an empty name with it is split at the tab, the
  token \<open>001\<close> is dropped, and the result is \<open>"De"\<close>, not the empty string. So the
  row of the name \<open>GmbH\<close> with this identifier gets the company \<open>"De"\<close>.
\<close>

theorem empty_name_two_tokens_counterexample:
  "remove_last_digits_iban ascii_db (lit ''DE'' @ [9] @ lit ''00123'')
     = lit ''DE'' @ [9] @ lit ''001''
   \<and> get_company_match ascii_db (\<lambda>u q. 0) (lit ''gmbh DE'' @ [9] @ lit ''00123'')
        [[] @ [space] @ remove_last_digits_iban ascii_db (lit ''DE'' @ [9] @ lit ''00123'')]
       = Inr (lit ''De'')
   \<and> process_duplicate_removal ascii_db (lit ''XX'') tab_rows = Inr tab_dedup
   \<and> map_sum id (map company) (match_rows ascii_db bn_example (\<lambda>u q. 0) tab_dedup)
       = Inr [lit ''De'']"
  by code_simp

text \<open>
  C10 (amended). For every non-empty canonical universe and every query key, if the
  best-matching universe member (the first one with the maximum score) has at most one
  whitespace-separated token, \<open>get_company_match\<close> returns the empty string. A
  candidate key made of an empty name, a space and a truncated identifier without
  whitespace is such a member. For every table of deduplicated rows, the entity
  resolution returns a result; the candidate key of every row is its suffix-stripped
  name, a space and its truncated identifier; the company of every row is what
  \<open>get_company_match\<close> returns for its full key; and every row whose company is the
  empty string is aggregated under the entity with the empty name: its name and its
  IBAN are among that entity's observed values.
\<close>

theorem empty_display_name_aggregated:
  "(unique_companies \<noteq> [] \<longrightarrow>
      (\<exists>i<length unique_companies.
          (\<forall>j<length unique_companies.
              tsr (unique_companies ! j) actual_company
                \<le> tsr (unique_companies ! i) actual_company)
          \<and> (\<forall>j<i. tsr (unique_companies ! j) actual_company
                      < tsr (unique_companies ! i) actual_company)
          \<and> (length (split db (unique_companies ! i)) \<le> 1 \<longrightarrow>
               get_company_match db tsr actual_company unique_companies = Inr [])))
   \<and> ((\<forall>c\<in>set t. \<not> isspace db c) \<longrightarrow> length (split db ([] @ [space] @ t)) \<le> 1)
   \<and> ((\<forall>r\<in>set dataframe. iban r \<noteq> None) \<longrightarrow>
        (\<exists>d m ents.
            generate_name_iban_normalized db (remove_terms_name_company db bn dataframe)
              = Inr d
            \<and> match_rows db bn tsr dataframe = Inr m
            \<and> process_entity_resolution db bn tsr dataframe = Inr ents
            \<and> (\<forall>k<length dataframe. \<exists>x. iban (dataframe ! k) = Some x
                  \<and> not_business_terms_name_norm_iban (d ! k) =
                      remove_business_terms db bn (norm_name (dataframe ! k)) @ [space]
                        @ remove_last_digits_iban db x
                  \<and> get_company_match db tsr (norm_name_iban (d ! k))
                        (get_uniques_name_plus_iban d)
                      = Inr (company (m ! k))
                  \<and> (company (m ! k) = [] \<longrightarrow>
                       (\<exists>e\<in>set ents. entity_name e = []
                           \<and> name (dataframe ! k) \<in> observed_names e
                           \<and> iban (dataframe ! k) \<in> observed_identifiers e)))))"
proof (intro conjI impI)
  assume "unique_companies \<noteq> []"
  from get_company_match_first_max [OF this, of tsr actual_company db]
  obtain i where i: "i < length unique_companies"
    "\<forall>j<length unique_companies.
        tsr (unique_companies ! j) actual_company \<le> tsr (unique_companies ! i) actual_company"
    "\<forall>j<i. tsr (unique_companies ! j) actual_company
              < tsr (unique_companies ! i) actual_company"
    "get_company_match db tsr actual_company unique_companies =
       Inr (capitalize db (join [space] (butlast (split db (unique_companies ! i)))))"
    by blast
  have "length (split db (unique_companies ! i)) \<le> 1 \<longrightarrow>
          get_company_match db tsr actual_company unique_companies = Inr []"
    using i(4) by (simp add: display_name_one_token)
  with i(1,2,3)
  show "\<exists>i<length unique_companies.
          (\<forall>j<length unique_companies.
              tsr (unique_companies ! j) actual_company
                \<le> tsr (unique_companies ! i) actual_company)
          \<and> (\<forall>j<i. tsr (unique_companies ! j) actual_company
                      < tsr (unique_companies ! i) actual_company)
          \<and> (length (split db (unique_companies ! i)) \<le> 1 \<longrightarrow>
               get_company_match db tsr actual_company unique_companies = Inr [])"
    by blast
next
  assume "\<forall>c\<in>set t. \<not> isspace db c"
  from split_space_token [OF this] show "length (split db ([] @ [space] @ t)) \<le> 1"
    by simp
next
  assume h: "\<forall>r\<in>set dataframe. iban r \<noteq> None"
  from match_rows_total [OF h, of db bn tsr] obtain d m where
    dm: "generate_name_iban_normalized db (remove_terms_name_company db bn dataframe) = Inr d
           \<and> match_rows db bn tsr dataframe = Inr m
           \<and> length d = length dataframe \<and> length m = length dataframe
           \<and> set (get_uniques_name_plus_iban d) = set (map not_business_terms_name_norm_iban d)
           \<and> distinct (get_uniques_name_plus_iban d)
           \<and> (\<forall>k<length dataframe. \<exists>x. iban (dataframe ! k) = Some x
                 \<and> name (m ! k) = name (dataframe ! k) \<and> iban (m ! k) = iban (dataframe ! k)
                 \<and> norm_name_iban (d ! k) = norm_name (dataframe ! k) @ [space] @ x
                 \<and> not_business_terms_name_norm_iban (d ! k) =
                     remove_business_terms db bn (norm_name (dataframe ! k)) @ [space]
                       @ remove_last_digits_iban db x
                 \<and> get_company_match db tsr (norm_name_iban (d ! k))
                       (get_uniques_name_plus_iban d)
                     = Inr (company (m ! k)))"
    by (elim exE)
  note d = dm [THEN conjunct1]
    and m = dm [THEN conjunct2, THEN conjunct1]
    and lm = dm [THEN conjunct2, THEN conjunct2, THEN conjunct2, THEN conjunct1]
    and rows = dm [THEN conjunct2, THEN conjunct2, THEN conjunct2, THEN conjunct2,
                   THEN conjunct2, THEN conjunct2]
  let ?ents = "generate_group_by_company m"
  have p: "process_entity_resolution db bn tsr dataframe = Inr ?ents"
    by (simp only: process_entity_resolution_def m sum.case)
  have r: "\<forall>k<length dataframe. \<exists>x. iban (dataframe ! k) = Some x
                  \<and> not_business_terms_name_norm_iban (d ! k) =
                      remove_business_terms db bn (norm_name (dataframe ! k)) @ [space]
                        @ remove_last_digits_iban db x
                  \<and> get_company_match db tsr (norm_name_iban (d ! k))
                        (get_uniques_name_plus_iban d)
                      = Inr (company (m ! k))
                  \<and> (company (m ! k) = [] \<longrightarrow>
                       (\<exists>e\<in>set ?ents. entity_name e = []
                           \<and> name (dataframe ! k) \<in> observed_names e
                           \<and> iban (dataframe ! k) \<in> observed_identifiers e))"
  proof (intro allI impI)
    fix k assume k: "k < length dataframe"
    from rows [rule_format, OF k] obtain x where
      x: "iban (dataframe ! k) = Some x
                 \<and> name (m ! k) = name (dataframe ! k) \<and> iban (m ! k) = iban (dataframe ! k)
                 \<and> norm_name_iban (d ! k) = norm_name (dataframe ! k) @ [space] @ x
                 \<and> not_business_terms_name_norm_iban (d ! k) =
                     remove_business_terms db bn (norm_name (dataframe ! k)) @ [space]
                       @ remove_last_digits_iban db x
                 \<and> get_company_match db tsr (norm_name_iban (d ! k))
                       (get_uniques_name_plus_iban d)
                     = Inr (company (m ! k))"
      by (elim exE)
    note x1 = x [THEN conjunct1]
      and xn = x [THEN conjunct2, THEN conjunct1]
      and xi = x [THEN conjunct2, THEN conjunct2, THEN conjunct1]
      and xk = x [THEN conjunct2, THEN conjunct2, THEN conjunct2, THEN conjunct2, THEN conjunct1]
      and xg = x [THEN conjunct2, THEN conjunct2, THEN conjunct2, THEN conjunct2, THEN conjunct2]
    have "m ! k \<in> set m" using k lm by simp
    from entity_of_row [OF this] have
      e: "\<exists>e\<in>set ?ents. entity_name e = company (m ! k)
            \<and> name (dataframe ! k) \<in> observed_names e
            \<and> iban (dataframe ! k) \<in> observed_identifiers e"
      by (simp only: xn xi)
    have c: "company (m ! k) = [] \<longrightarrow>
               (\<exists>e\<in>set ?ents. entity_name e = []
                   \<and> name (dataframe ! k) \<in> observed_names e
                   \<and> iban (dataframe ! k) \<in> observed_identifiers e)"
      using e by metis
    show "\<exists>x. iban (dataframe ! k) = Some x
                  \<and> not_business_terms_name_norm_iban (d ! k) =
                      remove_business_terms db bn (norm_name (dataframe ! k)) @ [space]
                        @ remove_last_digits_iban db x
                  \<and> get_company_match db tsr (norm_name_iban (d ! k))
                        (get_uniques_name_plus_iban d)
                      = Inr (company (m ! k))
                  \<and> (company (m ! k) = [] \<longrightarrow>
                       (\<exists>e\<in>set ?ents. entity_name e = []
                           \<and> name (dataframe ! k) \<in> observed_names e
                           \<and> iban (dataframe ! k) \<in> observed_identifiers e))"
      by (intro exI [of _ x] conjI x1 xk xg c)
  qed
  show "\<exists>d m ents.
            generate_name_iban_normalized db (remove_terms_name_company db bn dataframe)
              = Inr d
            \<and> match_rows db bn tsr dataframe = Inr m
            \<and> process_entity_resolution db bn tsr dataframe = Inr ents
            \<and> (\<forall>k<length dataframe. \<exists>x. iban (dataframe ! k) = Some x
                  \<and> not_business_terms_name_norm_iban (d ! k) =
                      remove_business_terms db bn (norm_name (dataframe ! k)) @ [space]
                        @ remove_last_digits_iban db x
                  \<and> get_company_match db tsr (norm_name_iban (d ! k))
                        (get_uniques_name_plus_iban d)
                      = Inr (company (m ! k))
                  \<and> (company (m ! k) = [] \<longrightarrow>
                       (\<exists>e\<in>set ents. entity_name e = []
                           \<and> name (dataframe ! k) \<in> observed_names e
                           \<and> iban (dataframe ! k) \<in> observed_identifiers e)))"
    by (intro exI [of _ d] exI [of _ m] exI [of _ ?ents] conjI d m p r)
qed

text \<open>
  The property of C10 for the universe of the single key \<open>" DE0"\<close>, and for the table
  of the single row \<open>("GmbH", "DE002")\<close> run through the two stages: the
  suffix-stripped name is empty, the company of the row is the empty string, and the
  only entity has the empty name and holds the name and the IBAN of the row.
\<close>

theorem empty_display_name_aggregated_witness:
  "[lit '' DE0''] \<noteq> []
   \<and> length (split ascii_db (lit '' DE0'')) \<le> 1
   \<and> get_company_match ascii_db (\<lambda>u q. 0) (lit ''gmbh DE002'') [lit '' DE0''] = Inr []
   \<and> list_all (\<lambda>c. \<not> isspace ascii_db c) (lit ''DE0'')
   \<and> length (split ascii_db ([] @ [space] @ lit ''DE0'')) \<le> 1
   \<and> process_duplicate_removal ascii_db (lit ''XX'') gmbh_rows = Inr gmbh_dedup
   \<and> list_all (\<lambda>r. iban r \<noteq> None) gmbh_dedup
   \<and> (\<exists>m. match_rows ascii_db bn_example (\<lambda>u q. 0) gmbh_dedup = Inr m
          \<and> map company m = [[]])
   \<and> (\<exists>ents. process_entity_resolution ascii_db bn_example (\<lambda>u q. 0) gmbh_dedup = Inr ents
          \<and> ents = [gmbh_entity]
          \<and> (\<exists>e\<in>set ents. entity_name e = []
                \<and> Some (lit ''GmbH'') \<in> observed_names e
                \<and> Some (lit ''DE002'') \<in> observed_identifiers e))"
proof -
  note t = empty_display_name_aggregated [of "[lit '' DE0'']" "\<lambda>u q. 0" "lit ''gmbh DE002''"
      ascii_db "lit ''DE0''" gmbh_dedup bn_example]
  have ne: "[lit '' DE0''] \<noteq> []" by simp
  have len: "length (split ascii_db (lit '' DE0'')) \<le> 1" by (simp add: split_key_only)
  have ns: "\<forall>c\<in>set (lit ''DE0''). \<not> isspace ascii_db c" by (simp add: isspace_def lit_def)
  have ib: "\<forall>r\<in>set gmbh_dedup. iban r \<noteq> None" by (simp add: gmbh_dedup_def)
  from t [THEN conjunct1, THEN mp, OF ne] obtain i where "i < length [lit '' DE0'']"
    "length (split ascii_db ([lit '' DE0''] ! i)) \<le> 1 \<longrightarrow>
       get_company_match ascii_db (\<lambda>u q. 0) (lit ''gmbh DE002'') [lit '' DE0''] = Inr []"
    by blast
  with len have 1: "get_company_match ascii_db (\<lambda>u q. 0) (lit ''gmbh DE002'') [lit '' DE0'']
                      = Inr []"
    by simp
  have 2: "length (split ascii_db ([] @ [space] @ lit ''DE0'')) \<le> 1"
    by (rule t [THEN conjunct2, THEN conjunct1, THEN mp, OF ns])
  from t [THEN conjunct2, THEN conjunct2, THEN mp, OF ib] obtain d m ents where
    dm: "generate_name_iban_normalized ascii_db
             (remove_terms_name_company ascii_db bn_example gmbh_dedup) = Inr d
            \<and> match_rows ascii_db bn_example (\<lambda>u q. 0) gmbh_dedup = Inr m
            \<and> process_entity_resolution ascii_db bn_example (\<lambda>u q. 0) gmbh_dedup = Inr ents
            \<and> (\<forall>k<length gmbh_dedup. \<exists>x. iban (gmbh_dedup ! k) = Some x
                  \<and> not_business_terms_name_norm_iban (d ! k) =
                      remove_business_terms ascii_db bn_example (norm_name (gmbh_dedup ! k))
                        @ [space] @ remove_last_digits_iban ascii_db x
                  \<and> get_company_match ascii_db (\<lambda>u q. 0) (norm_name_iban (d ! k))
                        (get_uniques_name_plus_iban d)
                      = Inr (company (m ! k))
                  \<and> (company (m ! k) = [] \<longrightarrow>
                       (\<exists>e\<in>set ents. entity_name e = []
                           \<and> name (gmbh_dedup ! k) \<in> observed_names e
                           \<and> iban (gmbh_dedup ! k) \<in> observed_identifiers e)))"
    by (elim exE)
  note m = dm [THEN conjunct2, THEN conjunct1]
    and p = dm [THEN conjunct2, THEN conjunct2, THEN conjunct1]
    and rows = dm [THEN conjunct2, THEN conjunct2, THEN conjunct2]
  have mc: "map company m = [[]]"
    using m by (auto simp: gmbh_match_rows)
  then have c0: "company (m ! 0) = []"
    by (cases m) simp_all
  have k0: "0 < length gmbh_dedup" by (simp add: gmbh_dedup_def)
  from rows [rule_format, OF k0] c0
  have "\<exists>e\<in>set ents. entity_name e = []
           \<and> name (gmbh_dedup ! 0) \<in> observed_names e
           \<and> iban (gmbh_dedup ! 0) \<in> observed_identifiers e"
    by blast
  then have e: "\<exists>e\<in>set ents. entity_name e = []
           \<and> Some (lit ''GmbH'') \<in> observed_names e
           \<and> Some (lit ''DE002'') \<in> observed_identifiers e"
    by (simp add: gmbh_dedup_def)
  have pe: "ents = [gmbh_entity]"
    using p by (simp add: gmbh_resolution)
  have 3: "\<exists>m. match_rows ascii_db bn_example (\<lambda>u q. 0) gmbh_dedup = Inr m
          \<and> map company m = [[]]"
    by (intro exI [of _ m] conjI m mc)
  have 4: "\<exists>ents. process_entity_resolution ascii_db bn_example (\<lambda>u q. 0) gmbh_dedup = Inr ents
          \<and> ents = [gmbh_entity]
          \<and> (\<exists>e\<in>set ents. entity_name e = []
                \<and> Some (lit ''GmbH'') \<in> observed_names e
                \<and> Some (lit ''DE002'') \<in> observed_identifiers e)"
    by (intro exI [of _ ents] conjI p pe e)
  have la: "list_all (\<lambda>c. \<not> isspace ascii_db c) (lit ''DE0'')"
    using ns by (simp only: list_all_iff)
  have lb: "list_all (\<lambda>r. iban r \<noteq> None) gmbh_dedup"
    using ib by (simp only: list_all_iff)
  show ?thesis by (intro conjI ne len 1 la 2 gmbh_dedup_result lb 3 4)
qed

end
